theory Spec2Isabelle
  imports Main "HOL-Library.Sublist" "HOL-Library.Multiset"
begin

section \<open>Strings of the Go standard library used by the orchestrator\<close>

text \<open>
  Go strings are byte sequences; \<^typ>\<open>string\<close> is a list of 8-bit characters, so
  \<^const>\<open>length\<close> is Go's \<^verbatim>\<open>len\<close>.

  \<^verbatim>\<open>strings.Index(s, sub)\<close> is the byte offset of the first occurrence of \<^verbatim>\<open>sub\<close> in
  \<^verbatim>\<open>s\<close>, or -1 (here \<open>None\<close>) when there is none. The empty string occurs at offset 0.
\<close>

fun Index :: "string \<Rightarrow> string \<Rightarrow> nat option" where
  "Index [] sub = (if sub = [] then Some 0 else None)"
| "Index (c # cs) sub =
     (if prefix sub (c # cs) then Some 0 else map_option Suc (Index cs sub))"

text \<open>
  \<^verbatim>\<open>strings.Replace(s, old, new, 1)\<close>, the only way the repository calls it. The library
  returns \<^verbatim>\<open>s\<close> when \<^verbatim>\<open>old == new\<close> or when \<^verbatim>\<open>old\<close> does not occur; otherwise it copies
  \<^verbatim>\<open>s\<close> up to the first occurrence, then \<^verbatim>\<open>new\<close>, then the rest of \<^verbatim>\<open>s\<close> after the
  occurrence. An empty \<^verbatim>\<open>old\<close> matches at offset 0.
\<close>

definition Replace1 :: "string \<Rightarrow> string \<Rightarrow> string \<Rightarrow> string" where
  "Replace1 s old new =
     (if old = new then s
      else case Index s old of
             None \<Rightarrow> s
           | Some j \<Rightarrow> take j s @ new @ drop (j + length old) s)"

definition HasSuffix :: "string \<Rightarrow> string \<Rightarrow> bool" where
  "HasSuffix s suff = suffix suff s"

section \<open>Regular expressions as Go's \<^verbatim>\<open>regexp\<close> package matches them\<close>

text \<open>
  The syntax the pattern of \<^verbatim>\<open>imageValidator\<close> uses: a literal byte, a character class
  given by its ranges, concatenation, and the greedy operators \<^verbatim>\<open>*\<close>, \<^verbatim>\<open>+\<close>, \<^verbatim>\<open>?\<close>
  (a non-capturing group \<^verbatim>\<open>(?:...)\<close> only brackets).
\<close>

datatype rexp =
    Lit char
  | Cls "(char \<times> char) list"
  | Seq rexp rexp
  | Star rexp
  | Plus rexp
  | Opt rexp

definition in_class :: "(char \<times> char) list \<Rightarrow> char \<Rightarrow> bool" where
  "in_class rs c =
     list_ex (\<lambda>(lo, hi). (of_char lo :: nat) \<le> of_char c \<and> (of_char c :: nat) \<le> of_char hi) rs"

text \<open>
  Package \<^verbatim>\<open>regexp\<close> returns, among the matches that start leftmost, the one a
  backtracking search finds first (leftmost-first, as Perl and Python do). \<open>matches r s\<close>
  lists, in the order of that search, what is left of \<open>s\<close> after each way \<open>r\<close> matches a
  prefix of \<open>s\<close>. A greedy operator tries one more iteration before it tries to stop.
  \<open>star_iter\<close> is the loop of \<^verbatim>\<open>*\<close>, with the length of the input as fuel; an iteration
  that consumes nothing is not repeated.
\<close>

primrec star_iter :: "(string \<Rightarrow> string list) \<Rightarrow> nat \<Rightarrow> string \<Rightarrow> string list" where
  "star_iter f 0 s = [s]"
| "star_iter f (Suc n) s =
     concat (map (\<lambda>t. if length t < length s then star_iter f n t else []) (f s)) @ [s]"

primrec matches :: "rexp \<Rightarrow> string \<Rightarrow> string list" where
  "matches (Lit c) = (\<lambda>s. case s of [] \<Rightarrow> [] | x # xs \<Rightarrow> if x = c then [xs] else [])"
| "matches (Cls rs) = (\<lambda>s. case s of [] \<Rightarrow> [] | x # xs \<Rightarrow> if in_class rs x then [xs] else [])"
| "matches (Seq a b) = (\<lambda>s. concat (map (matches b) (matches a s)))"
| "matches (Star a) = (\<lambda>s. star_iter (matches a) (length s) s)"
| "matches (Plus a) = (\<lambda>s. concat (map (\<lambda>t. star_iter (matches a) (length t) t) (matches a s)))"
| "matches (Opt a) = (\<lambda>s. matches a s @ [s])"

text \<open>
  \<^verbatim>\<open>re.FindString(s)\<close>: the text of the leftmost match of \<^verbatim>\<open>re\<close> in \<^verbatim>\<open>s\<close>; the empty
  string when there is no match at any offset.
\<close>

fun FindString :: "rexp \<Rightarrow> string \<Rightarrow> string" where
  "FindString re s =
     (case matches re s of
        t # _ \<Rightarrow> take (length s - length t) s
      | [] \<Rightarrow> (case s of [] \<Rightarrow> [] | _ # cs \<Rightarrow> FindString re cs))"

declare FindString.simps [simp del]

text \<open>
  The words a regular expression denotes, as the textbooks define them: what
  ``\<open>s\<close> matches the pattern over its entire length'' means.
\<close>

inductive_set star :: "string set \<Rightarrow> string set" for A :: "string set" where
  star_empty: "[] \<in> star A"
| star_step: "u \<in> A \<Longrightarrow> v \<in> star A \<Longrightarrow> u @ v \<in> star A"

primrec lang :: "rexp \<Rightarrow> string set" where
  "lang (Lit c) = {[c]}"
| "lang (Cls rs) = {[x] | x. in_class rs x}"
| "lang (Seq a b) = {u @ v | u v. u \<in> lang a \<and> v \<in> lang b}"
| "lang (Star a) = star (lang a)"
| "lang (Plus a) = {u @ v | u v. u \<in> lang a \<and> v \<in> star (lang a)}"
| "lang (Opt a) = insert [] (lang a)"

section \<open>buildshiprun: validating the image name\<close>

text \<open>
  \<^verbatim>\<open>imageValidator = regexp.MustCompile(
    "(?:[a-zA-Z0-9]+(?:[._-][a-z0-9]+)*(?::[0-9]+)?/[a-zA-Z0-9]+(?:[._-][a-z0-9]+)*/)*
     [a-zA-Z0-9]+(?:[._-][a-z0-9]+)*")\<close>
  (one line in the source). \<open>component\<close> is the part
  \<^verbatim>\<open>[a-zA-Z0-9]+(?:[._-][a-z0-9]+)*\<close>, which the pattern holds three times.
\<close>

definition alnum :: "(char \<times> char) list" where
  "alnum = [(CHR ''a'', CHR ''z''), (CHR ''A'', CHR ''Z''), (CHR ''0'', CHR ''9'')]"

definition separator :: "(char \<times> char) list" where
  "separator = [(CHR ''.'', CHR ''.''), (CHR ''_'', CHR ''_''), (CHR ''-'', CHR ''-'')]"

definition lower_digit :: "(char \<times> char) list" where
  "lower_digit = [(CHR ''a'', CHR ''z''), (CHR ''0'', CHR ''9'')]"

definition digit :: "(char \<times> char) list" where
  "digit = [(CHR ''0'', CHR ''9'')]"

definition component :: rexp where
  "component = Seq (Plus (Cls alnum)) (Star (Seq (Cls separator) (Plus (Cls lower_digit))))"

definition port :: rexp where
  "port = Seq (Lit CHR '':'') (Plus (Cls digit))"

definition registry_namespace :: rexp where
  "registry_namespace =
     Seq component (Seq (Opt port) (Seq (Lit CHR ''/'') (Seq component (Lit CHR ''/''))))"

definition imageValidator :: rexp where
  "imageValidator = Seq (Star registry_namespace) component"

text \<open>
  \<^verbatim>\<open>func validImage(image string) bool {
    match := imageValidator.FindString(image)
    // image should be the whole string
    if len(match) == len(image) { return true }
    return false
  }\<close>
\<close>

definition validImage :: "string \<Rightarrow> bool" where
  "validImage img = (length (FindString imageValidator img) = length img)"

text \<open>
  The grammar the specification names for an image reference,
  \<^verbatim>\<open>registry[/namespace...]/name[:tag]\<close>: a registry (here with the optional port of the
  pattern), any number of namespaces, a name, and an optional tag. Registry, namespace
  and name are components as the pattern has them; a tag is a word character followed
  by word characters, dots and hyphens, as in a Docker reference.
\<close>

definition word :: "(char \<times> char) list" where
  "word = [(CHR ''a'', CHR ''z''), (CHR ''A'', CHR ''Z''), (CHR ''0'', CHR ''9''),
           (CHR ''_'', CHR ''_'')]"

definition tag :: rexp where
  "tag = Seq (Cls word) (Star (Cls (word @ [(CHR ''.'', CHR ''.''), (CHR ''-'', CHR ''-'')])))"

definition claimed_reference :: rexp where
  "claimed_reference =
     Seq component (Seq (Opt port)
       (Seq (Star (Seq (Lit CHR ''/'') component))
         (Seq (Lit CHR ''/'') (Seq component (Opt (Seq (Lit CHR '':'') tag))))))"

section \<open>buildshiprun: rewriting the image reference\<close>

text \<open>
  \<^verbatim>\<open>func getImageName(repositoryURL, pushRepositoryURL, imageName string) string {
    return strings.Replace(imageName, pushRepositoryURL, repositoryURL, 1)
  }\<close>
\<close>

definition getImageName :: "string \<Rightarrow> string \<Rightarrow> string \<Rightarrow> string" where
  "getImageName repositoryURL pushRepositoryURL imageName =
     Replace1 imageName pushRepositoryURL repositoryURL"

section \<open>More of the Go standard library\<close>

text \<open>
  \<^verbatim>\<open>strings.TrimSpace\<close> removes, at both ends, the code points for which
  \<^verbatim>\<open>unicode.IsSpace\<close> holds. On bytes these are the six ASCII spaces and the UTF-8
  encodings of U+0085, U+00A0, U+1680, U+2000 to U+200A, U+2028, U+2029, U+202F, U+205F
  and U+3000.
\<close>

definition space_encodings :: "string list" where
  "space_encodings =
     [[CHR 0x09], [CHR 0x0A], [CHR 0x0B], [CHR 0x0C], [CHR 0x0D], [CHR 0x20],
      [CHR 0xC2, CHR 0x85], [CHR 0xC2, CHR 0xA0], [CHR 0xE1, CHR 0x9A, CHR 0x80],
      [CHR 0xE2, CHR 0x80, CHR 0x80], [CHR 0xE2, CHR 0x80, CHR 0x81],
      [CHR 0xE2, CHR 0x80, CHR 0x82], [CHR 0xE2, CHR 0x80, CHR 0x83],
      [CHR 0xE2, CHR 0x80, CHR 0x84], [CHR 0xE2, CHR 0x80, CHR 0x85],
      [CHR 0xE2, CHR 0x80, CHR 0x86], [CHR 0xE2, CHR 0x80, CHR 0x87],
      [CHR 0xE2, CHR 0x80, CHR 0x88], [CHR 0xE2, CHR 0x80, CHR 0x89],
      [CHR 0xE2, CHR 0x80, CHR 0x8A], [CHR 0xE2, CHR 0x80, CHR 0xA8],
      [CHR 0xE2, CHR 0x80, CHR 0xA9], [CHR 0xE2, CHR 0x80, CHR 0xAF],
      [CHR 0xE2, CHR 0x81, CHR 0x9F], [CHR 0xE3, CHR 0x80, CHR 0x80]]"

function trim_left :: "string list \<Rightarrow> string \<Rightarrow> string" where
  "trim_left encs s =
     (case List.find (\<lambda>p. prefix p s) encs of
        None \<Rightarrow> s
      | Some p \<Rightarrow> if p = [] then s else trim_left encs (drop (length p) s))"
  by pat_completeness auto
termination
  by (relation "measure (\<lambda>(encs, s). length s)") (auto simp: find_Some_iff prefix_def)

declare trim_left.simps [simp del]

definition TrimSpace :: "string \<Rightarrow> string" where
  "TrimSpace s = rev (trim_left (map rev space_encodings) (rev (trim_left space_encodings s)))"

text \<open>\<^verbatim>\<open>%d\<close> of a Go integer: its decimal digits, with a minus sign when negative.\<close>

fun decimal :: "nat \<Rightarrow> string" where
  "decimal n = (if n < 10 then [char_of (48 + n)] else decimal (n div 10) @ [char_of (48 + n mod 10)])"

declare decimal.simps [simp del]

definition show_int :: "int \<Rightarrow> string" where
  "show_int i = (if i < 0 then ''-'' @ decimal (nat (- i)) else decimal (nat i))"

section \<open>buildshiprun: the data of the orchestrator\<close>

type_synonym error = string

text \<open>
  The environment overrides, a \<^verbatim>\<open>map[string]string\<close>, are kept as the list of pairs
  \<^verbatim>\<open>json.Unmarshal\<close> read; \<open>None\<close> is the \<^verbatim>\<open>nil\<close> map, and the \<^verbatim>\<open>len\<close> of a map is the
  number of its keys.
\<close>

record eventInfo =
  service :: string
  owner :: string
  repository :: string
  image' :: string
  sha :: string
  url :: string
  installationID :: int
  environment :: "(string \<times> string) list option"
  secrets :: "string list"

record Limits =
  Memory :: string

record deployment =
  Service :: string
  Image :: string
  Network :: string
  Labels :: "string \<rightharpoonup> string"
  Limits :: Limits
  EnvVars :: "(string \<times> string) list option"
  Secrets :: "string list"

record function1 =
  Name :: string

text \<open>\<^verbatim>\<open>sdk.AuditEvent\<close> and \<^verbatim>\<open>github.RepoStatus\<close>, with the fields the handler sets.\<close>

record AuditEvent =
  Message :: string
  Owner :: string
  Repo :: string
  Source :: string

record RepoStatus =
  State :: string
  TargetURL :: string
  Description :: string
  Context :: string

text \<open>
  An HTTP request as the handler builds it, and the response it reads.
\<close>

record request =
  Method :: string
  URL :: string
  ReqBody :: string
  ContentType :: string
  BasicAuth :: "(string \<times> string) option"

record response =
  resStatus :: string
  StatusCode :: int
  Body :: string

text \<open>
  What the handler reads from outside, one field for each thing it calls:
  the process environment (\<^verbatim>\<open>os.Getenv\<close>, the empty string when a variable is not set),
  \<^verbatim>\<open>strconv.Atoi\<close>, whether an address parses (\<^verbatim>\<open>http.NewRequest\<close> fails when it does
  not), \<^verbatim>\<open>json.Unmarshal\<close> at the three types it is used at (for the environment
  overrides: the map as the call leaves it, \<open>None\<close> after the JSON \<^verbatim>\<open>null\<close>; for the
  secrets: the slice as the call leaves it, and the error), \<^verbatim>\<open>json.Marshal\<close> of a
  deployment, the HTTP client, the clock already rendered
  (\<^verbatim>\<open>strconv.FormatInt(time.Now().Unix(), 10)\<close>), the credential of the secret store,
  and the two calls of the source-control host.
\<close>

record world =
  getenv :: "string \<Rightarrow> string"
  atoi :: "string \<Rightarrow> int \<times> error option"
  url_parses :: "string \<Rightarrow> bool"
  unmarshal_env :: "string \<Rightarrow> error + (string \<times> string) list option"
  unmarshal_secrets :: "string \<Rightarrow> string list \<times> error option"
  unmarshal_functions :: "string \<Rightarrow> function1 list"
  marshal_deployment :: "deployment \<Rightarrow> string"
  http_do :: "request \<Rightarrow> error + response"
  deploy_time :: string
  basic_auth_secret :: "error + (string \<times> string)"
  makeAccessToken :: "string \<Rightarrow> int \<Rightarrow> string \<Rightarrow> string \<times> error option"
  createStatus :: "string \<Rightarrow> string \<Rightarrow> string \<Rightarrow> string \<Rightarrow> RepoStatus \<Rightarrow> error option"

text \<open>
  What the handler does to the outside, in the order it does it: a request sent, an
  audit event posted, a token asked for, a commit status posted, a line printed (the
  format string and its arguments).
\<close>

datatype arg = S string | I int | V RepoStatus

datatype effect =
    HttpDo request
  | PostAudit AuditEvent
  | MintToken string int string
  | CreateStatus string string string string RepoStatus
  | Print string "arg list"

text \<open>How an invocation ends: it returns, the process exits, or it panics.\<close>

datatype outcome = Return string | Exit int | Panic string

definition requests :: "effect list \<Rightarrow> request list" where
  "requests es = concat (map (\<lambda>e. case e of HttpDo r \<Rightarrow> [r] | _ \<Rightarrow> []) es)"

definition audits :: "effect list \<Rightarrow> AuditEvent list" where
  "audits es = concat (map (\<lambda>e. case e of PostAudit a \<Rightarrow> [a] | _ \<Rightarrow> []) es)"

definition statuses_posted :: "effect list \<Rightarrow> RepoStatus list" where
  "statuses_posted es =
     concat (map (\<lambda>e. case e of CreateStatus _ _ _ _ st \<Rightarrow> [st] | _ \<Rightarrow> []) es)"

section \<open>buildshiprun: the trigger event\<close>

text \<open>
  \<^verbatim>\<open>getEvent\<close> reads the event from the environment. The loop at its end,
  \<^verbatim>\<open>for i := 0; i < len(info.secrets); i++ {
    info.secrets[i] = info.owner + "-" + info.secrets[i] }\<close>,
  rewrites every element of the slice.
\<close>

definition getEvent :: "world \<Rightarrow> effect list \<times> eventInfo \<times> error option" where
  "getEvent w =
     (let (instID, err) =
            (if length (getenv w ''Http_Installation_id'') > 0
             then atoi w (getenv w ''Http_Installation_id'') else (0, None));
          httpEnv = getenv w ''Http_Env'';
          (envLog, envVars) =
            (if length httpEnv > 0
             then (case unmarshal_env w httpEnv of
                     Inr m \<Rightarrow> ([], m)
                   | Inl envErr \<Rightarrow>
                       ([Print ''Error un-marshaling env-vars for function %s, %s''
                           [S (getenv w ''Http_Service''), S envErr]],
                        Some []))
             else ([], None));
          secretsStr = getenv w ''Http_Secrets'';
          (secretLog, secretVars) =
            (if length secretsStr > 0
             then (case unmarshal_secrets w secretsStr of
                     (vs, None) \<Rightarrow> ([], vs)
                   | (vs, Some secretErr) \<Rightarrow> ([Print ''%s'' [S secretErr]], vs))
             else ([], []));
          info = \<lparr>service = getenv w ''Http_Service'',
                  owner = getenv w ''Http_Owner'',
                  repository = getenv w ''Http_Repo'',
                  image' = getenv w ''Http_Image'',
                  sha = getenv w ''Http_Sha'',
                  url = getenv w ''Http_Url'',
                  installationID = instID,
                  environment = envVars,
                  secrets = map (\<lambda>s. getenv w ''Http_Owner'' @ ''-'' @ s) secretVars\<rparr>
      in (envLog @ secretLog @
            [Print ''%d env-vars for %s''
               [I (case envVars of None \<Rightarrow> 0 | Some m \<Rightarrow> int (length (remdups (map fst m)))),
                S (service info)]],
          info, err))"
section \<open>buildshiprun: the Deployment Client\<close>

text \<open>
  \<^verbatim>\<open>http.NewRequest(method, url, body)\<close>: the request, or \<^verbatim>\<open>nil\<close> (\<open>None\<close>) with an
  error when the address does not parse. The methods the code passes are valid. The
  source drops the error at all three calls and goes on with the request it was given:
  a method call on the \<^verbatim>\<open>nil\<close> request, or \<^verbatim>\<open>c.Do\<close> of it, panics.
\<close>

definition NewRequest :: "world \<Rightarrow> string \<Rightarrow> string \<Rightarrow> string \<Rightarrow> request option" where
  "NewRequest w method url' body =
     (if url_parses w url'
      then Some \<lparr>Method = method, URL = url', ReqBody = body, ContentType = [],
                  BasicAuth = None\<rparr>
      else None)"

text \<open>
  Modelled from the spec: \<^verbatim>\<open>sdk.AddBasicAuth\<close>, of the repository's \<^verbatim>\<open>sdk\<close> package, is
  not among the sources. The spec says that both calls to the serving platform ``carry a
  basic-auth credential obtained from a secret store''; the callers log the error it
  returns and send the request all the same. Setting the credential on the \<^verbatim>\<open>nil\<close>
  request panics (\<open>None\<close>).
\<close>

definition AddBasicAuth ::
  "world \<Rightarrow> request option \<Rightarrow> (request option \<times> error option) option" where
  "AddBasicAuth w r =
     (case basic_auth_secret w of
        Inl e \<Rightarrow> Some (r, Some e)
      | Inr credentials \<Rightarrow>
          (case r of
             None \<Rightarrow> None
           | Some req \<Rightarrow> Some (Some (req\<lparr>BasicAuth := Some credentials\<rparr>), None)))"

text \<open>
  The loop of \<^verbatim>\<open>functionExists\<close>:
  \<^verbatim>\<open>for _, function1 := range functions {
    if function1.Name == deploy.Service { return true, nil } }\<close>
\<close>

primrec listed :: "function1 list \<Rightarrow> string \<Rightarrow> bool" where
  "listed [] name = False"
| "listed (function1 # functions) name =
     (if Name function1 = name then True else listed functions name)"

text \<open>
  \<^verbatim>\<open>functionExists\<close>; its result is \<open>None\<close> when it panics. The error of
  \<^verbatim>\<open>json.Unmarshal\<close> is dropped by the source: \<open>unmarshal_functions\<close> is the slice as the
  call leaves it.
\<close>

definition functionExists ::
  "world \<Rightarrow> deployment \<Rightarrow> string \<Rightarrow> effect list \<times> (bool \<times> error option) option" where
  "functionExists w deploy gatewayURL =
     (let r = NewRequest w ''GET'' (gatewayURL @ ''system/functions'') []
      in case AddBasicAuth w r of
           None \<Rightarrow> ([], None)
         | Some (r, addAuthErr) \<Rightarrow>
     (let authLog = (case addAuthErr of
                       Some e \<Rightarrow> [Print ''Basic auth error %s'' [S e]] | None \<Rightarrow> [])
      in case r of
           None \<Rightarrow> (authLog, None)
         | Some r \<Rightarrow>
             (case http_do w r of
                Inl err \<Rightarrow> (authLog @ [HttpDo r, Print ''%s'' [S err]], Some (False, Some err))
              | Inr res \<Rightarrow>
                  (authLog @ [HttpDo r, Print ''functionExists status: %s'' [S (resStatus res)]],
                   Some (listed (unmarshal_functions w (Body res)) (Service deploy), None)))))"

text \<open>
  \<^verbatim>\<open>deployFunction\<close>; its result is \<open>None\<close> when it panics, in \<^verbatim>\<open>functionExists\<close> or at
  \<^verbatim>\<open>httpReq.Header.Set\<close> on the \<^verbatim>\<open>nil\<close> request.
\<close>

definition deployFunction ::
  "world \<Rightarrow> deployment \<Rightarrow> string \<Rightarrow> effect list \<times> (string \<times> error option) option" where
  "deployFunction w deploy gatewayURL =
     (case functionExists w deploy gatewayURL of
        (existsLog, None) \<Rightarrow> (existsLog, None)
      | (existsLog, Some (exists, err)) \<Rightarrow>
     (let bytesOut = marshal_deployment w deploy;
          deploying = existsLog @
            [Print ''Deploying: %s as %s'' [S (Image deploy), S (Service deploy)]];
          method = (if exists then ''PUT'' else ''POST'')
      in case NewRequest w method (gatewayURL @ ''system/functions'') bytesOut of
           None \<Rightarrow> (deploying, None)
         | Some httpReq \<Rightarrow>
     (case AddBasicAuth w (Some (httpReq\<lparr>ContentType := ''application/json''\<rparr>)) of
        None \<Rightarrow> (deploying, None)
      | Some (None, addAuthErr) \<Rightarrow> (deploying, None)
      | Some (Some httpReq, addAuthErr) \<Rightarrow>
     (let before = deploying @
            (case addAuthErr of
               Some e \<Rightarrow> [Print ''Basic auth error %s'' [S e]] | None \<Rightarrow> [])
      in case http_do w httpReq of
           Inl err \<Rightarrow> (before @ [HttpDo httpReq, Print ''%s'' [S err]], Some ([], Some err))
         | Inr res \<Rightarrow>
             (let after = before @ [HttpDo httpReq, Print ''Deploy status: %s'' [S (resStatus res)]]
              in if StatusCode res < 200 \<or> StatusCode res > 299
                 then (after, Some ([], Some (''http status code '' @ show_int (StatusCode res))))
                 else (after, Some (Body res, None)))))))"

section \<open>buildshiprun: the Status Reporter\<close>

definition defaultPrivateKeyName :: string where
  "defaultPrivateKeyName = ''private-key''"

definition enableStatusReporting :: "world \<Rightarrow> bool" where
  "enableStatusReporting w = (getenv w ''report_status'' = ''true'')"

definition buildPublicStatusURL :: "world \<Rightarrow> string \<Rightarrow> eventInfo \<Rightarrow> string" where
  "buildPublicStatusURL w status event =
     (if status = ''success''
      then (let publicURL = getenv w ''gateway_public_url'';
                gatewayPrettyURL = getenv w ''gateway_pretty_url''
            in if length gatewayPrettyURL > 0
               then Replace1 (Replace1 gatewayPrettyURL ''user'' (owner event))
                      ''function'' (service event)
               else if length publicURL > 0
               then (if \<not> HasSuffix publicURL ''/'' then publicURL @ ''/'' else publicURL)
                      @ ''function/'' @ (owner event @ ''-'' @ service event)
               else url event)
      else url event)"

definition getPrivateKey :: "world \<Rightarrow> string" where
  "getPrivateKey w =
     ''/var/openfaas/secrets/'' @
       (if getenv w ''private_key'' = [] then defaultPrivateKeyName else getenv w ''private_key'')"

definition buildStatus :: "string \<Rightarrow> string \<Rightarrow> string \<Rightarrow> string \<Rightarrow> RepoStatus" where
  "buildStatus status desc context url' =
     \<lparr>State = status, TargetURL = url', Description = desc, Context = context\<rparr>"

text \<open>
  \<^verbatim>\<open>reportStatus\<close> has no result: all it gives back is what it did. Each of its three
  failures prints a line and returns.
\<close>

definition reportStatus :: "world \<Rightarrow> string \<Rightarrow> string \<Rightarrow> string \<Rightarrow> eventInfo \<Rightarrow> effect list" where
  "reportStatus w status desc statusContext event =
     (if \<not> enableStatusReporting w then []
      else
        (let url' = buildPublicStatusURL w status event;
             privateKeyPath = getPrivateKey w;
             repoStatus = buildStatus status desc statusContext url';
             appID = getenv w ''github_app_id'';
             started =
               [Print ''Status: %s, GitHub AppID: %d, Repo: %s, Owner: %s''
                  [S status, I (installationID event), S (repository event), S (owner event)],
                MintToken appID (installationID event) privateKeyPath]
         in case makeAccessToken w appID (installationID event) privateKeyPath of
              (token, Some tokenErr) \<Rightarrow>
                started @ [Print ''failed to report status %v, error: %s''
                             [V repoStatus, S tokenErr]]
            | (token, None) \<Rightarrow>
                if token = []
                then started @
                       [Print ''failed to report status %v, error: authentication failed Invalid token''
                          [V repoStatus]]
                else
                  (let posted = started @
                         [CreateStatus token (owner event) (repository event) (sha event) repoStatus]
                   in case createStatus w token (owner event) (repository event) (sha event)
                             repoStatus of
                        Some apiErr \<Rightarrow>
                          posted @ [Print ''failed to report status %v, error: %s''
                                      [V repoStatus, S apiErr]]
                      | None \<Rightarrow> posted)))"

section \<open>buildshiprun: the orchestrator\<close>

text \<open>
  The deployment descriptor \<^verbatim>\<open>Handle\<close> builds, from the rewritten image name:
  \<^verbatim>\<open>serviceValue = fmt.Sprintf("%s-%s", event.owner, event.service)\<close>, the memory limit
  of the environment or \<^verbatim>\<open>"20m"\<close>, and \<^verbatim>\<open>deploy := deployment{...}\<close>.
\<close>

definition serviceValue_of :: "eventInfo \<Rightarrow> string" where
  "serviceValue_of event = owner event @ ''-'' @ service event"

definition deployment_of :: "world \<Rightarrow> eventInfo \<Rightarrow> string \<Rightarrow> deployment" where
  "deployment_of w event imageName =
     (let serviceValue = serviceValue_of event;
          defaultMemoryLimit =
            (if length (getenv w ''default_memory_limit'') = 0 then ''20m''
             else getenv w ''default_memory_limit'')
      in \<lparr>Service = serviceValue,
          Image = imageName,
          Network = ''func_functions'',
          Labels = [''Git-Cloud'' \<mapsto> ''1'',
                    ''Git-Owner'' \<mapsto> owner event,
                    ''Git-Repo'' \<mapsto> repository event,
                    ''Git-DeployTime'' \<mapsto> deploy_time w,
                    ''Git-SHA'' \<mapsto> sha event,
                    ''faas_function'' \<mapsto> serviceValue,
                    ''app'' \<mapsto> serviceValue],
          Limits = \<lparr>Memory = defaultMemoryLimit\<rparr>,
          EnvVars = environment event,
          Secrets = secrets event\<rparr>)"

text \<open>
  \<^verbatim>\<open>Handle\<close>. \<^verbatim>\<open>log.Panic\<close> prints and panics; \<^verbatim>\<open>log.Fatal\<close> prints and calls
  \<^verbatim>\<open>os.Exit(1)\<close>, so the statements the source has after a \<^verbatim>\<open>log.Fatal\<close> never run.
  \<^verbatim>\<open>r.Header.Set\<close> on the \<^verbatim>\<open>nil\<close> request panics, and a panic inside
  \<^verbatim>\<open>deployFunction\<close> ends \<^verbatim>\<open>Handle\<close> as well. \<open>deployed\<close> is what the block under
  \<^verbatim>\<open>if len(imageName) > 0\<close> leaves: the end of the run, or the service name, the image
  name and the audit event the statements after the block go on with. \<^verbatim>\<open>sdk.PostAudit\<close>, of the \<^verbatim>\<open>sdk\<close> package that is not among the
  sources, is the effect \<open>PostAudit\<close> with the event it is given.
\<close>

definition nil_dereference :: string where
  "nil_dereference = ''runtime error: invalid memory address or nil pointer dereference''"

definition Handle :: "world \<Rightarrow> string \<Rightarrow> effect list \<times> outcome" where
  "Handle w req =
     (let builderURL = getenv w ''builder_url'';
          (eventLog, event, eventErr) = getEvent w
      in case eventErr of
           Some e \<Rightarrow> (eventLog @ [Print ''%s'' [S e]], Panic e)
         | None \<Rightarrow>
      (let auditEvent = \<lparr>Message = [], Owner = owner event, Repo = repository event,
                          Source = ''buildshiprun''\<rparr>
       in case NewRequest w ''POST'' (builderURL @ ''build'') req of
            None \<Rightarrow> (eventLog, Panic nil_dereference)
          | Some r \<Rightarrow>
      (let r = r\<lparr>ContentType := ''application/octet-stream''\<rparr>
       in case http_do w r of
            Inl err \<Rightarrow>
              (let auditEvent' = auditEvent\<lparr>Message := ''buildshiprun failure: '' @ err\<rparr>
               in (eventLog @ [HttpDo r, Print ''%s'' [S err]]
                     @ reportStatus w ''failure'' err ''BUILD'' event
                     @ [PostAudit auditEvent'],
                   Return (Message auditEvent')))
          | Inr res \<Rightarrow>
      (let buildStatus = Body res;
           imageName = TrimSpace buildStatus;
           repositoryURL = getenv w ''repository_url'';
           pushRepositoryURL = getenv w ''push_repository_url'';
           built = eventLog @ [HttpDo r]
       in if length repositoryURL = 0
          then (built @ [Print ''repository_url env-var not set'' []], Exit 1)
          else if length pushRepositoryURL = 0
          then (built @ [Print ''push_repository_url env-var not set'' []], Exit 1)
          else
      (let logged = built @ [Print (''buildshiprun: image '' @ [CHR 0x27] @ ''%s'' @ [CHR 0x27])
                               [S imageName]]
       in if \<not> validImage imageName
          then (let msg = ''Unable to build image, check builder logs''
                in (logged @ reportStatus w ''failure'' msg ''DEPLOY'' event
                      @ [Print ''%s'' [S msg]],
                    Exit 1))
          else
      (let deployed =
             (if length imageName > 0
              then (let gatewayURL = getenv w ''gateway_url'';
                        imageName' = getImageName repositoryURL pushRepositoryURL imageName;
                        serviceValue = serviceValue_of event;
                        deploy = deployment_of w event imageName';
                        deploying = [Print ''Deploying %s as %s'' [S imageName', S serviceValue]]
                    in case deployFunction w deploy gatewayURL of
                         (deployLog, None) \<Rightarrow>
                           Inl (deploying @ deployLog, Panic nil_dereference)
                       | (deployLog, Some (result, Some e)) \<Rightarrow>
                           Inl (deploying @ deployLog
                                  @ reportStatus w ''failure'' e ''DEPLOY'' event
                                  @ [Print ''%s'' [S e]],
                                Exit 1)
                       | (deployLog, Some (result, None)) \<Rightarrow>
                           Inr (deploying @ deployLog @ [Print ''%s'' [S result]],
                                serviceValue, imageName',
                                auditEvent\<lparr>Message :=
                                  ''buildshiprun succeeded: deployed '' @ imageName'\<rparr>))
              else Inr ([], [], imageName, auditEvent))
       in case deployed of
            Inl (ended, how) \<Rightarrow> (logged @ ended, how)
          | Inr (deployLog, serviceValue, imageName', auditEvent') \<Rightarrow>
              (logged @ deployLog @ [PostAudit auditEvent']
                 @ reportStatus w ''success''
                     (''function successfully deployed as: '' @ serviceValue) ''DEPLOY'' event,
               Return (''buildStatus '' @ buildStatus @ '' '' @ imageName' @ '' ''
                         @ resStatus res))))))))"
section \<open>The requests of one pipeline run\<close>

text \<open>
  Names for the three requests the orchestrator sends: the build request of \<^verbatim>\<open>Handle\<close>,
  the list request of \<^verbatim>\<open>functionExists\<close>, and the create-or-update request of
  \<^verbatim>\<open>deployFunction\<close>, the last two with the credential of the secret store when it
  could be read. \<open>on_platform\<close>: the list request was answered and the answer lists the
  service name of the descriptor.
\<close>

definition build_request :: "world \<Rightarrow> string \<Rightarrow> request" where
  "build_request w req =
     \<lparr>Method = ''POST'', URL = getenv w ''builder_url'' @ ''build'', ReqBody = req,
      ContentType = ''application/octet-stream'', BasicAuth = None\<rparr>"

definition credential :: "world \<Rightarrow> (string \<times> string) option" where
  "credential w = (case basic_auth_secret w of Inl e \<Rightarrow> None | Inr c \<Rightarrow> Some c)"

definition list_request :: "world \<Rightarrow> string \<Rightarrow> request" where
  "list_request w gatewayURL =
     \<lparr>Method = ''GET'', URL = gatewayURL @ ''system/functions'', ReqBody = [],
      ContentType = [], BasicAuth = credential w\<rparr>"

definition on_platform :: "world \<Rightarrow> deployment \<Rightarrow> string \<Rightarrow> bool" where
  "on_platform w deploy gatewayURL =
     (case http_do w (list_request w gatewayURL) of
        Inl err \<Rightarrow> False
      | Inr res \<Rightarrow> Service deploy \<in> Name ` set (unmarshal_functions w (Body res)))"

definition upsert_request :: "world \<Rightarrow> deployment \<Rightarrow> string \<Rightarrow> request" where
  "upsert_request w deploy gatewayURL =
     \<lparr>Method = (if on_platform w deploy gatewayURL then ''PUT'' else ''POST''),
      URL = gatewayURL @ ''system/functions'',
      ReqBody = marshal_deployment w deploy, ContentType = ''application/json'',
      BasicAuth = credential w\<rparr>"

section \<open>of-builder: the Build Log\<close>

text \<open>
  \<^verbatim>\<open>type buildLog struct { Line []string; Sync *sync.Mutex }\<close>. The mutex is held
  (\<open>True\<close>) or free.
\<close>

record buildLog =
  Line :: "string list"
  Sync :: bool

text \<open>
  \<^verbatim>\<open>func (b *buildLog) Append(msg string) {
    b.Sync.Lock()
    b.Line = append(b.Line, msg)
    b.Sync.Unlock()
  }\<close>
  A goroutine that runs \<^verbatim>\<open>Append\<close> is at one of its statements. The assignment reads
  the slice and then stores the longer one, two steps between which other goroutines
  may run. \<open>AtStore l\<close> holds the slice that was read.
\<close>

datatype pc = AtLock | AtRead | AtStore "string list" | AtUnlock | Returned

type_synonym producer = "pc \<times> string"

text \<open>
  One step of one producer on the shared log. \<^verbatim>\<open>Lock\<close> goes on only when the mutex is
  free; \<^verbatim>\<open>Unlock\<close> frees it.
\<close>

inductive producer_step :: "buildLog \<times> producer \<Rightarrow> buildLog \<times> producer \<Rightarrow> bool" where
  lock: "\<not> Sync b \<Longrightarrow> producer_step (b, (AtLock, msg)) (b\<lparr>Sync := True\<rparr>, (AtRead, msg))"
| read: "producer_step (b, (AtRead, msg)) (b, (AtStore (Line b), msg))"
| store: "producer_step (b, (AtStore l, msg)) (b\<lparr>Line := l @ [msg]\<rparr>, (AtUnlock, msg))"
| unlock: "producer_step (b, (AtUnlock, msg)) (b\<lparr>Sync := False\<rparr>, (Returned, msg))"

text \<open>
  An execution of concurrent producers interleaves their steps: at each moment any one
  producer that can step does.
\<close>

inductive step :: "buildLog \<times> producer list \<Rightarrow> buildLog \<times> producer list \<Rightarrow> bool" where
  "producer_step (b, p) (b', p') \<Longrightarrow> step (b, ps @ p # qs) (b', ps @ p' # qs)"

inductive execution :: "buildLog \<times> producer list \<Rightarrow> buildLog \<times> producer list \<Rightarrow> bool" where
  start: "execution c c"
| more: "execution c c' \<Longrightarrow> step c' c'' \<Longrightarrow> execution c c''"

definition producers :: "string list \<Rightarrow> producer list" where
  "producers msgs = map (\<lambda>msg. (AtLock, msg)) msgs"

definition all_returned :: "producer list \<Rightarrow> bool" where
  "all_returned ps = list_all (\<lambda>p. fst p = Returned) ps"

text \<open>
  \<^verbatim>\<open>Append\<close> run by one goroutine alone on a log whose mutex is free: what the drain
  loop of \<^verbatim>\<open>build\<close> does.
\<close>

definition Append :: "buildLog \<Rightarrow> string \<Rightarrow> buildLog" where
  "Append b msg = b\<lparr>Line := Line b @ [msg]\<rparr>"

section \<open>of-builder: the Build Service\<close>

text \<open>
  The events of the build engine (\<^verbatim>\<open>client.SolveStatus\<close> with its vertexes, statuses
  and logs), with the fields the drain loop reads. A \<^verbatim>\<open>*time.Time\<close> that is \<^verbatim>\<open>nil\<close> is
  \<open>None\<close>; a time is a number of nanoseconds.
\<close>

type_synonym time = int

record Vertex =
  vName :: string
  Started :: "time option"
  Completed :: "time option"

record VertexStatus =
  sVertex :: string
  sID :: string
  sTimestamp :: time
  sCurrent :: int

record VertexLog =
  lVertex :: string
  lTimestamp :: time
  lData :: string

record SolveStatus =
  Vertexes :: "Vertex list"
  Statuses :: "VertexStatus list"
  Logs :: "VertexLog list"

record config =
  Ref :: string
  Frontend :: string

record SolveOpt =
  Exporter :: string
  ExporterAttrs :: "(string \<times> string) list"
  LocalDirs :: "(string \<times> string) list"
  soFrontend :: string
  FrontendAttrs :: "(string \<times> string) list"
  Session :: "string list"

text \<open>\<^verbatim>\<open>BuildResult\<close>; a \<^verbatim>\<open>nil\<close> log (JSON \<^verbatim>\<open>null\<close>) is \<open>None\<close>.\<close>

record BuildResult =
  Log :: "string list option"
  ImageName :: string
  Status :: string

text \<open>
  What the Build Service reads from outside: the flag \<^verbatim>\<open>lchownEnabled\<close> set by
  \<^verbatim>\<open>main\<close>, \<^verbatim>\<open>os.LookupEnv\<close>, \<^verbatim>\<open>ioutil.TempDir\<close>, \<^verbatim>\<open>archive.Untar\<close> (of the request
  body, into a directory, with \<^verbatim>\<open>NoLchown\<close>), \<^verbatim>\<open>ioutil.ReadFile\<close>, \<^verbatim>\<open>json.Unmarshal\<close> of
  the config, \<^verbatim>\<open>strings.ToLower\<close>, \<^verbatim>\<open>client.New\<close>, the build engine (the events
  \<^verbatim>\<open>Solve\<close> sends on the channel before it closes it, and the error it returns), the
  clock, and how \<^verbatim>\<open>fmt\<close> renders a time (\<^verbatim>\<open>%s\<close>, \<^verbatim>\<open>time.RFC3339\<close>) and the seconds
  between two times (\<^verbatim>\<open>%.2f\<close>).
\<close>

record builder_world =
  lchownEnabled :: bool
  lookupEnv :: "string \<Rightarrow> string option"
  tempDir :: "error + string"
  untar :: "string \<Rightarrow> string \<Rightarrow> bool \<Rightarrow> error option"
  readFile :: "string \<Rightarrow> error + string"
  unmarshal_config :: "string \<Rightarrow> error + config"
  toLower :: "string \<Rightarrow> string"
  client_new :: "error option"
  solve :: "SolveOpt \<Rightarrow> SolveStatus list \<times> error option"
  now :: time
  fmt_time :: "time \<Rightarrow> string"
  fmt_rfc3339 :: "time \<Rightarrow> string"
  fmt_seconds :: "time \<Rightarrow> time \<Rightarrow> string"

datatype build_effect =
    MkTempDir
  | Untar string bool
  | ReadFile string
  | RemoveAll string
  | ClientNew
  | Solve SolveOpt

text \<open>
  The line of a vertex. \<^verbatim>\<open>v.Completed.Sub(*v.Started)\<close> dereferences \<^verbatim>\<open>v.Started\<close>: on a
  completed vertex with no start time the goroutine panics (\<open>None\<close>).
\<close>

definition vertex_line :: "builder_world \<Rightarrow> Vertex \<Rightarrow> string option" where
  "vertex_line w v =
     (case Completed v of
        Some completed \<Rightarrow>
          (case Started v of
             None \<Rightarrow> None
           | Some started \<Rightarrow>
               Some (''v: '' @ fmt_time w started @ '' '' @ vName v @ '' ''
                       @ fmt_seconds w started completed @ ''s''))
      | None \<Rightarrow>
          (let startedTime = (case Started v of Some started \<Rightarrow> started | None \<Rightarrow> now w)
           in Some (''v: '' @ fmt_rfc3339 w startedTime @ '' '' @ vName v)))"

definition status_line :: "builder_world \<Rightarrow> VertexStatus \<Rightarrow> string" where
  "status_line w s =
     ''s: '' @ fmt_time w (sTimestamp s) @ '' '' @ sID s @ '' '' @ show_int (sCurrent s)"

definition log_line :: "builder_world \<Rightarrow> VertexLog \<Rightarrow> string" where
  "log_line w l = ''l: '' @ fmt_time w (lTimestamp l) @ '' '' @ lData l"

text \<open>
  The drain loop, \<^verbatim>\<open>for s := range ch { for _, v := range s.Vertexes {...}
  for _, s := range s.Statuses {...} for _, l := range s.Logs {...} }\<close>: one line
  appended for each vertex, status and log, in this order. What it prints to the
  standard output is left out. \<open>None\<close>: it panicked.
\<close>

fun drain_vertexes :: "builder_world \<Rightarrow> buildLog \<Rightarrow> Vertex list \<Rightarrow> buildLog option" where
  "drain_vertexes w b [] = Some b"
| "drain_vertexes w b (v # vs) =
     (case vertex_line w v of
        None \<Rightarrow> None
      | Some msg \<Rightarrow> drain_vertexes w (Append b msg) vs)"

fun drain_statuses :: "builder_world \<Rightarrow> buildLog \<Rightarrow> VertexStatus list \<Rightarrow> buildLog" where
  "drain_statuses w b [] = b"
| "drain_statuses w b (s # ss) = drain_statuses w (Append b (status_line w s)) ss"

fun drain_logs :: "builder_world \<Rightarrow> buildLog \<Rightarrow> VertexLog list \<Rightarrow> buildLog" where
  "drain_logs w b [] = b"
| "drain_logs w b (l # ls) = drain_logs w (Append b (log_line w l)) ls"

fun drain :: "builder_world \<Rightarrow> buildLog \<Rightarrow> SolveStatus list \<Rightarrow> buildLog option" where
  "drain w b [] = Some b"
| "drain w b (s # ch) =
     (case drain_vertexes w b (Vertexes s) of
        None \<Rightarrow> None
      | Some b1 \<Rightarrow> drain w (drain_logs w (drain_statuses w b1 (Statuses s)) (Logs s)) ch)"

text \<open>
  \<^verbatim>\<open>build\<close>; \<open>solveOpt_of\<close> is the \<^verbatim>\<open>client.SolveOpt\<close> it fills in, with the default
  frontend and the \<^verbatim>\<open>insecure\<close> flag of the environment. Its result is the pair the source returns, the bytes and the error; the
  bytes are \<^verbatim>\<open>json.Marshal\<close> of a \<^verbatim>\<open>BuildResult\<close>, which cannot fail on strings, and are
  kept as the value that was marshalled (\<open>None\<close> is \<^verbatim>\<open>nil\<close>). \<open>None\<close> for the whole
  result: the drain goroutine panicked and the process is gone. The two goroutines are
  joined by \<^verbatim>\<open>eg.Wait()\<close>: \<^verbatim>\<open>Solve\<close> has returned and the channel is drained when it
  returns, and the drain goroutine returns no error, so its error is the error of
  \<^verbatim>\<open>Solve\<close>. \<^verbatim>\<open>defer os.RemoveAll(tmpdir)\<close> runs at every return after the directory
  was made.
\<close>

definition solveOpt_of :: "builder_world \<Rightarrow> string \<Rightarrow> config \<Rightarrow> SolveOpt" where
  "solveOpt_of w tmpdir cfg =
     (let frontend = (if Frontend cfg = [] then ''tonistiigi/dockerfile:v0'' else Frontend cfg);
          insecure = (case lookupEnv w ''insecure'' of Some val \<Rightarrow> val | None \<Rightarrow> ''false'');
          contextDir = tmpdir @ ''/context''
      in \<lparr>Exporter = ''image'',
          ExporterAttrs =
            [(''name'', toLower w (Ref cfg)), (''push'', ''true'')]
              @ (if insecure = ''true'' then [(''registry.insecure'', insecure)] else []),
          LocalDirs = [(''context'', contextDir), (''dockerfile'', contextDir)],
          soFrontend = ''dockerfile.v0'',
          FrontendAttrs = [(''source'', frontend)],
          Session = [''DockerAuthProvider'']\<rparr>)"

definition build ::
  "builder_world \<Rightarrow> string \<Rightarrow> build_effect list \<times> (BuildResult option \<times> error option) option" where
  "build w body =
     (case tempDir w of
        Inl err \<Rightarrow> ([MkTempDir], Some (None, Some err))
      | Inr tmpdir \<Rightarrow>
     (let NoLchown = \<not> lchownEnabled w;
          untarred = [MkTempDir, Untar tmpdir NoLchown]
      in case untar w body tmpdir NoLchown of
           Some err \<Rightarrow> (untarred @ [RemoveAll tmpdir], Some (None, Some err))
         | None \<Rightarrow>
     (let config_read = untarred @ [ReadFile (tmpdir @ ''/config'')]
      in case readFile w (tmpdir @ ''/config'') of
           Inl err \<Rightarrow> (config_read @ [RemoveAll tmpdir], Some (None, Some err))
         | Inr dt \<Rightarrow>
     (case unmarshal_config w dt of
        Inl err \<Rightarrow> (config_read @ [RemoveAll tmpdir], Some (None, Some err))
      | Inr cfg \<Rightarrow>
          if Ref cfg = []
          then (config_read @ [RemoveAll tmpdir], Some (None, Some ''no target reference to push''))
          else
     (let solveOpt = solveOpt_of w tmpdir cfg
      in case client_new w of
           Some err \<Rightarrow> (config_read @ [ClientNew, RemoveAll tmpdir], Some (None, Some err))
         | None \<Rightarrow>
     (let (ch, solveErr) = solve w solveOpt;
          solved = config_read @ [ClientNew, Solve solveOpt]
      in case drain w \<lparr>Line = [], Sync = False\<rparr> ch of
           None \<Rightarrow> (solved, None)
         | Some b \<Rightarrow>
             (case solveErr of
                Some err \<Rightarrow>
                  (solved @ [RemoveAll tmpdir],
                   Some (Some \<lparr>Log = Some (Line b), ImageName = Ref cfg,
                                Status = ''failure: '' @ err\<rparr>,
                         Some err))
              | None \<Rightarrow>
                  (solved @ [RemoveAll tmpdir],
                   Some (Some \<lparr>Log = Some (Line b), ImageName = Ref cfg,
                                Status = ''success''\<rparr>,
                         None)))))))))"

text \<open>
  \<^verbatim>\<open>buildHandler\<close>: the status code and the body written, or nothing when the process
  is gone. A body \<open>None\<close> would be no bytes at all.
\<close>

record reply =
  code :: nat
  written :: "BuildResult option"

definition buildHandler :: "builder_world \<Rightarrow> string \<Rightarrow> build_effect list \<times> reply option" where
  "buildHandler w body =
     (case build w body of
        (effects, None) \<Rightarrow> (effects, None)
      | (effects, Some (dt, Some err)) \<Rightarrow>
          (effects,
           Some \<lparr>code = 500,
                  written =
                    (case dt of
                       None \<Rightarrow> Some \<lparr>Log = None, ImageName = [],
                                       Status = ''unexpected failure: '' @ err\<rparr>
                     | Some result \<Rightarrow> Some result)\<rparr>)
      | (effects, Some (dt, None)) \<Rightarrow> (effects, Some \<lparr>code = 200, written = dt\<rparr>))"

text \<open>The lines the events of the engine render to, when no vertex makes the loop panic.\<close>

definition lines_of :: "builder_world \<Rightarrow> SolveStatus \<Rightarrow> string list" where
  "lines_of w s =
     concat (map (\<lambda>v. case vertex_line w v of None \<Rightarrow> [] | Some msg \<Rightarrow> [msg]) (Vertexes s))
       @ map (status_line w) (Statuses s) @ map (log_line w) (Logs s)"

definition count_events :: "SolveStatus list \<Rightarrow> nat" where
  "count_events ch =
     sum_list (map (\<lambda>s. length (Vertexes s) + length (Statuses s) + length (Logs s)) ch)"

definition solves :: "build_effect list \<Rightarrow> SolveOpt list" where
  "solves es = concat (map (\<lambda>e. case e of Solve opt \<Rightarrow> [opt] | _ \<Rightarrow> []) es)"
section \<open>Auxiliary notions for the proofs about the image-name pattern\<close>

text \<open>
  \<open>starts P x\<close>: the string \<open>x\<close> is not empty and its first byte satisfies \<open>P\<close>.
  \<open>cchar\<close>: the bytes a \<open>component\<close> is made of. The other three name parts of the
  pattern.
\<close>

definition starts :: "(char \<Rightarrow> bool) \<Rightarrow> string \<Rightarrow> bool" where
  "starts P x = (case x of [] \<Rightarrow> False | c # _ \<Rightarrow> P c)"

definition cchar :: "char \<Rightarrow> bool" where
  "cchar c = (in_class alnum c \<or> in_class separator c)"

definition sep_part :: rexp where
  "sep_part = Seq (Cls separator) (Plus (Cls lower_digit))"

definition after_registry :: rexp where
  "after_registry = Seq (Opt port) (Seq (Lit CHR ''/'') (Seq component (Lit CHR ''/'')))"

definition slash_part :: rexp where
  "slash_part = Seq (Lit CHR ''/'') (Seq component (Lit CHR ''/''))"

section \<open>Auxiliary notions for the proofs about the Build Log\<close>

text \<open>
  A producer \<open>holds\<close> the mutex between its \<^verbatim>\<open>Lock\<close> and its \<^verbatim>\<open>Unlock\<close>; its line is
  \<open>appended\<close> once it has stored the slice. The invariant of every execution: the mutex
  is held exactly when one producer holds it, a producer about to store has read the
  current slice, and the log holds the initial lines and the lines of the producers
  that have appended. \<open>remaining\<close> counts the steps the producers still have to take.
\<close>

definition holds :: "producer \<Rightarrow> bool" where
  "holds p = (case fst p of AtRead \<Rightarrow> True | AtStore l \<Rightarrow> True | AtUnlock \<Rightarrow> True | _ \<Rightarrow> False)"

definition appended :: "producer \<Rightarrow> bool" where
  "appended p = (fst p = AtUnlock \<or> fst p = Returned)"

definition reads_current :: "buildLog \<Rightarrow> producer \<Rightarrow> bool" where
  "reads_current b p = (case fst p of AtStore l \<Rightarrow> l = Line b | _ \<Rightarrow> True)"

definition invariant :: "string list \<Rightarrow> buildLog \<times> producer list \<Rightarrow> bool" where
  "invariant l0 c =
     (case c of (b, ps) \<Rightarrow>
        length (filter holds ps) = (if Sync b then 1 else 0) \<and>
        list_all (reads_current b) ps \<and>
        mset (Line b) = mset l0 + mset (map snd (filter appended ps)))"

definition remaining :: "producer list \<Rightarrow> nat" where
  "remaining ps =
     sum_list (map (\<lambda>p. case fst p of AtLock \<Rightarrow> 4 | AtRead \<Rightarrow> 3 | AtStore l \<Rightarrow> 2
                              | AtUnlock \<Rightarrow> 1 | Returned \<Rightarrow> 0) ps)"

section \<open>A concrete run\<close>

text \<open>
  An environment, a builder that answers with the text \<open>built\<close>, and a serving platform
  that lists the function \<^verbatim>\<open>alexellis-figlet\<close>: the inputs at which the theorems below
  are evaluated.
\<close>

definition example_secrets_json :: string where
  "example_secrets_json =
     ''['' @ [CHR 0x22] @ ''api-key'' @ [CHR 0x22] @ '','' @ [CHR 0x22] @ ''db-pass''
       @ [CHR 0x22] @ '']''"

definition example_functions_json :: string where
  "example_functions_json =
     ''[{'' @ [CHR 0x22] @ ''name'' @ [CHR 0x22] @ '':'' @ [CHR 0x22] @ ''alexellis-figlet''
       @ [CHR 0x22] @ ''}]''"

definition example_env :: "string \<Rightarrow> string" where
  "example_env k =
     (if k = ''Http_Owner'' then ''alexellis''
      else if k = ''Http_Service'' then ''figlet''
      else if k = ''Http_Repo'' then ''figlet-fn''
      else if k = ''Http_Sha'' then ''abc123''
      else if k = ''Http_Installation_id'' then ''7''
      else if k = ''Http_Secrets'' then example_secrets_json
      else if k = ''builder_url'' then ''http://of-builder:8080/''
      else if k = ''gateway_url'' then ''http://gateway:8080/''
      else if k = ''repository_url'' then ''docker.io''
      else if k = ''push_repository_url'' then ''registry:5000''
      else if k = ''report_status'' then ''true''
      else if k = ''github_app_id'' then ''1234''
      else [])"

definition example_http :: "string \<Rightarrow> string \<Rightarrow> request \<Rightarrow> error + response" where
  "example_http built listing r =
     (if URL r = ''http://of-builder:8080/build''
      then Inr \<lparr>resStatus = ''200 OK'', StatusCode = 200, Body = built\<rparr>
      else if Method r = ''GET''
      then Inr \<lparr>resStatus = ''200 OK'', StatusCode = 200, Body = listing\<rparr>
      else Inr \<lparr>resStatus = ''202 Accepted'', StatusCode = 202, Body = []\<rparr>)"

text \<open>
  The parsers of the example answer as the library does on the texts the example holds:
  the installation id \<^verbatim>\<open>7\<close>, the two secret names, the listing with one function or the
  empty listing \<^verbatim>\<open>[]\<close>. An address parses here when it has neither a space nor a
  control character. The text of a descriptor is cut down to its first two fields.
\<close>

definition example_world :: "string \<Rightarrow> world" where
  "example_world built =
     \<lparr>getenv = example_env,
      atoi = (\<lambda>s. if s = ''7'' then (7, None) else (0, Some ''invalid syntax'')),
      url_parses = (\<lambda>u. list_all (\<lambda>c. 32 < (of_char c :: nat) \<and> (of_char c :: nat) < 127) u),
      unmarshal_env = (\<lambda>s. Inl ''unexpected end of JSON input''),
      unmarshal_secrets =
        (\<lambda>s. if s = example_secrets_json then ([''api-key'', ''db-pass''], None)
             else ([], Some ''invalid character'')),
      unmarshal_functions =
        (\<lambda>s. if s = example_functions_json then [\<lparr>Name = ''alexellis-figlet''\<rparr>] else []),
      marshal_deployment =
        (\<lambda>d. ''{'' @ [CHR 0x22] @ ''Service'' @ [CHR 0x22] @ '':'' @ [CHR 0x22] @ Service d
               @ [CHR 0x22] @ '','' @ [CHR 0x22] @ ''Image'' @ [CHR 0x22] @ '':'' @ [CHR 0x22]
               @ Image d @ [CHR 0x22] @ ''}''),
      http_do = example_http built example_functions_json,
      deploy_time = ''1540000000'',
      basic_auth_secret = Inr (''admin'', ''secret''),
      makeAccessToken = (\<lambda>appID inst path. (''token'', None)),
      createStatus = (\<lambda>token own repo sha st. None)\<rparr>"

text \<open>
  The event \<^verbatim>\<open>getEvent\<close> reads from that environment and the descriptor built from it;
  the same world with a token service that fails, and with a platform that lists nothing.
\<close>

definition token_failure_world :: "string \<Rightarrow> world" where
  "token_failure_world built =
     (example_world built)
       \<lparr>makeAccessToken := (\<lambda>appID inst path. ([], Some ''private key not found''))\<rparr>"



definition example_event :: eventInfo where
  "example_event =
     \<lparr>service = ''figlet'', owner = ''alexellis'', repository = ''figlet-fn'', image' = [],
      sha = ''abc123'', url = [], installationID = 7, environment = None,
      secrets = [''alexellis-api-key'', ''alexellis-db-pass'']\<rparr>"

definition example_deployment :: deployment where
  "example_deployment =
     deployment_of (example_world []) example_event ''docker.io/alexellis/figlet-fn-figlet''"

text \<open>
  A Build Service world: every step before the engine succeeds, the config parses to
  \<open>cfg\<close>, and the engine sends the events \<open>ch\<close> and returns \<open>solveErr\<close>.
\<close>

definition example_builder :: "config \<Rightarrow> SolveStatus list \<Rightarrow> error option \<Rightarrow> builder_world" where
  "example_builder cfg ch solveErr =
     \<lparr>lchownEnabled = True,
      lookupEnv = (\<lambda>k. None),
      tempDir = Inr ''/tmp/buildctx1'',
      untar = (\<lambda>body dir noLchown. None),
      readFile = (\<lambda>path. Inr ''config''),
      unmarshal_config = (\<lambda>dt. Inr cfg),
      toLower = (\<lambda>s. s),
      client_new = None,
      solve = (\<lambda>opt. (ch, solveErr)),
      now = 0,
      fmt_time = show_int,
      fmt_rfc3339 = show_int,
      fmt_seconds = (\<lambda>started completed. show_int (completed - started))\<rparr>"

definition example_events :: "SolveStatus list" where
  "example_events =
     [\<lparr>Vertexes = [\<lparr>vName = ''load build definition'', Started = Some 1, Completed = None\<rparr>],
       Statuses = [\<lparr>sVertex = ''sha256:ab'', sID = ''transferring'', sTimestamp = 2,
                    sCurrent = 10\<rparr>],
       Logs = []\<rparr>,
      \<lparr>Vertexes = [], Statuses = [],
       Logs = [\<lparr>lVertex = ''sha256:ab'', lTimestamp = 3, lData = ''step 1''\<rparr>]\<rparr>]"

section \<open>The matcher agrees with the language of the pattern\<close>

lemma concat_map_Nil: "concat (map (\<lambda>t. []) xs) = []"
  by (induction xs) auto

text \<open>
  The loop of \<^verbatim>\<open>*\<close> does not depend on its fuel once the fuel is the length of the
  input, which gives the unfolding of \<open>matches (Star a)\<close> the later proofs use.
\<close>

lemma star_iter_fuel:
  "length s \<le> n \<Longrightarrow> length s \<le> m \<Longrightarrow> star_iter f n s = star_iter f m s"
proof (induction n arbitrary: s m)
  case 0
  then show ?case by (cases m) (auto simp: concat_map_Nil)
next
  case (Suc n)
  show ?case
  proof (cases m)
    case 0
    with Suc.prems show ?thesis by (auto simp: concat_map_Nil)
  next
    case (Suc k)
    have "(\<lambda>t. if length t < length s then star_iter f n t else []) =
          (\<lambda>t. if length t < length s then star_iter f k t else [])"
    proof
      fix t
      show "(if length t < length s then star_iter f n t else []) =
            (if length t < length s then star_iter f k t else [])"
        using Suc.IH [of t k] Suc.prems Suc by auto
    qed
    with Suc show ?thesis by simp
  qed
qed

lemma star_unfold:
  "matches (Star a) s =
     concat (map (\<lambda>t. if length t < length s then matches (Star a) t else []) (matches a s)) @ [s]"
proof (cases s)
  case Nil
  then show ?thesis by (simp add: concat_map_Nil)
next
  case (Cons c cs)
  have "(\<lambda>t. if length t < length s then star_iter (matches a) (length cs) t else []) =
        (\<lambda>t. if length t < length s then star_iter (matches a) (length t) t else [])"
  proof
    fix t
    show "(if length t < length s then star_iter (matches a) (length cs) t else []) =
          (if length t < length s then star_iter (matches a) (length t) t else [])"
      using star_iter_fuel [of t "length cs" "length t" "matches a"] Cons by auto
  qed
  with Cons show ?thesis by (simp cong: if_cong)
qed

text \<open>
  The remainders \<open>matches r s\<close> lists are exactly the suffixes of \<open>s\<close> left by a prefix
  that is a word of \<open>r\<close>: the search finds every match, and nothing else.
\<close>

lemma star_iter_sound:
  assumes f: "\<And>s. set (f s) \<subseteq> {t. \<exists>u\<in>A. s = u @ t}"
  shows "t \<in> set (star_iter f n s) \<Longrightarrow> \<exists>u\<in>star A. s = u @ t"
proof (induction n arbitrary: s)
  case 0
  then show ?case by (auto intro: star.star_empty)
next
  case (Suc n)
  from Suc.prems consider "t = s"
    | t1 where "t1 \<in> set (f s)" "length t1 < length s" "t \<in> set (star_iter f n t1)"
    by (auto split: if_splits)
  then show ?case
  proof cases
    case 1
    then show ?thesis by (auto intro: star.star_empty)
  next
    case 2
    from 2(1) f obtain u where u: "u \<in> A" "s = u @ t1" by blast
    from Suc.IH [OF 2(3)] obtain v where v: "v \<in> star A" "t1 = v @ t" by blast
    from u v have "u @ v \<in> star A" "s = (u @ v) @ t" by (auto intro: star.star_step)
    then show ?thesis by blast
  qed
qed

lemma star_iter_complete:
  assumes f: "\<And>s. {t. \<exists>u\<in>A. s = u @ t} \<subseteq> set (f s)"
  shows "u \<in> star A \<Longrightarrow> s = u @ t \<Longrightarrow> length s \<le> n \<Longrightarrow> t \<in> set (star_iter f n s)"
proof (induction u arbitrary: s n rule: star.induct)
  case star_empty
  then show ?case by (cases n) auto
next
  case (star_step u v)
  show ?case
  proof (cases "u = []")
    case True
    with star_step show ?thesis by simp
  next
    case False
    with star_step.prems obtain k where n: "n = Suc k" by (cases n) auto
    have t1: "v @ t \<in> set (f s)" using f [of s] star_step.hyps(1) star_step.prems(1) by auto
    have len: "length (v @ t) < length s" using False star_step.prems(1) by simp
    have "t \<in> set (star_iter f k (v @ t))"
      using star_step.IH [of "v @ t" k] len star_step.prems(2) n by simp
    with t1 len n show ?thesis by auto
  qed
qed

lemma matches_lang: "set (matches r s) = {t. \<exists>u\<in>lang r. s = u @ t}"
proof (induction r arbitrary: s)
  case (Lit c)
  then show ?case by (cases s) auto
next
  case (Cls rs)
  then show ?case by (cases s) auto
next
  case (Seq a b)
  then show ?case by (auto simp: ) (metis append.assoc)+
next
  case (Star a)
  have "t \<in> set (star_iter (matches a) (length s) s) \<longleftrightarrow> (\<exists>u\<in>star (lang a). s = u @ t)" for t
    using star_iter_sound [where f = "matches a" and A = "lang a" and t = t and n = "length s" and s = s]
      star_iter_complete [where f = "matches a" and A = "lang a" and t = t and n = "length s" and s = s]
      Star by blast
  then show ?case by auto
next
  case (Plus a)
  have *: "t \<in> set (star_iter (matches a) (length s) s) \<longleftrightarrow> (\<exists>u\<in>star (lang a). s = u @ t)" for t s
    using star_iter_sound [where f = "matches a" and A = "lang a" and t = t and n = "length s" and s = s]
      star_iter_complete [where f = "matches a" and A = "lang a" and t = t and n = "length s" and s = s]
      Plus by blast
  show ?case
    apply (auto simp: * Plus)
     apply (metis append.assoc)
    by (metis append.assoc)
next
  case (Opt a)
  then show ?case by auto
qed

subsection \<open>The order of the search on the image-name pattern\<close>

text \<open>
  The bytes of the classes of the pattern: an alphanumeric byte is no separator, and
  neither a slash nor a colon is a byte of a component.
\<close>

lemma alnum_not_sep: "in_class alnum c \<Longrightarrow> \<not> in_class separator c"
  by (auto simp: in_class_def alnum_def separator_def)

lemma ld_alnum: "in_class lower_digit c \<Longrightarrow> in_class alnum c"
  by (auto simp: in_class_def alnum_def lower_digit_def)

lemma digit_alnum: "in_class digit c \<Longrightarrow> in_class alnum c"
  by (auto simp: in_class_def alnum_def digit_def)

lemma not_cchar_slash: "\<not> cchar CHR ''/''"
  by (auto simp: cchar_def in_class_def alnum_def separator_def)

lemma not_cchar_colon: "\<not> cchar CHR '':''"
  by (auto simp: cchar_def in_class_def alnum_def separator_def)

lemma concat_map_tail_Nil:
  "\<forall>x\<in>set (tl L). f x = [] \<Longrightarrow> concat (map f L) = (case L of [] \<Rightarrow> [] | t # _ \<Rightarrow> f t)"
  by (cases L) (auto simp: concat_map_Nil)

lemma concat_map_single: "\<forall>x\<in>set L. f x = [x] \<Longrightarrow> concat (map f L) = L"
  by (induction L) auto

lemma concat_map_tail_single:
  "\<forall>x\<in>set (tl L). f x = [x] \<Longrightarrow> L \<noteq> [] \<Longrightarrow> concat (map f L) = f (hd L) @ tl L"
  by (cases L) (auto simp: concat_map_single)

lemma matches_suffix: "t \<in> set (matches r s) \<Longrightarrow> length t \<le> length s"
  using matches_lang [of r s] by auto

lemma matches_first:
  assumes "\<And>u. u \<in> lang r \<Longrightarrow> starts Q u" and "\<not> starts Q x"
  shows "matches r x = []"
proof (rule ccontr)
  assume "matches r x \<noteq> []"
  then obtain t where "t \<in> set (matches r x)" by (cases "matches r x") auto
  then obtain u where u: "u \<in> lang r" "x = u @ t" using matches_lang [of r x] by auto
  from assms(1) [OF u(1)] u(2) assms(2) show False
    by (cases u) (auto simp: starts_def)
qed

text \<open>
  A greedy run over a character class lists the longest match first; every later
  remainder starts with a byte of the class.
\<close>

lemma star_cls:
  "matches (Star (Cls rs)) s =
     (case s of [] \<Rightarrow> [[]]
      | x # xs \<Rightarrow> if in_class rs x then matches (Star (Cls rs)) xs @ [s] else [s])"
  by (subst star_unfold) (auto split: list.splits)

lemma star_cls_tail:
  "matches (Star (Cls rs)) s \<noteq> [] \<and>
   (\<forall>x\<in>set (tl (matches (Star (Cls rs)) s)). starts (in_class rs) x)"
proof (induction s)
  case Nil
  show ?case by (subst star_cls, subst (2) star_cls) simp
next
  case (Cons c cs)
  show ?case
  proof (cases "in_class rs c")
    case True
    have eq: "matches (Star (Cls rs)) (c # cs) = matches (Star (Cls rs)) cs @ [c # cs]"
      using True by (subst star_cls) simp
    show ?thesis unfolding eq using Cons True by (auto simp: starts_def)
  next
    case False
    have eq: "matches (Star (Cls rs)) (c # cs) = [c # cs]"
      using False by (subst star_cls) simp
    show ?thesis unfolding eq by simp
  qed
qed

lemma plus_cls:
  "matches (Plus (Cls rs)) s =
     (case s of [] \<Rightarrow> [] | x # xs \<Rightarrow> if in_class rs x then matches (Star (Cls rs)) xs else [])"
  by (auto split: list.splits)

lemma plus_cls_tail: "x \<in> set (tl (matches (Plus (Cls rs)) s)) \<Longrightarrow> starts (in_class rs) x"
  using star_cls_tail [of rs "tl s"] by (subst (asm) plus_cls) (auto split: list.splits if_splits)

text \<open>
  The same holds for a whole component: after the first, every remainder starts with a
  byte a component is made of, so nothing that needs a slash or a colon can follow it.
\<close>

lemma component_alt: "component = Seq (Plus (Cls alnum)) (Star sep_part)"
  by (simp add: component_def sep_part_def)

lemma lang_sep_part_starts: "u \<in> lang sep_part \<Longrightarrow> starts (in_class separator) u"
  by (auto simp: sep_part_def starts_def)

lemma star_sep_part_single:
  assumes "starts (in_class alnum) r"
  shows "matches (Star sep_part) r = [r]"
proof -
  have "\<not> starts (in_class separator) r"
    using assms alnum_not_sep by (auto simp: starts_def split: list.splits)
  then have "matches sep_part r = []"
    using matches_first [of sep_part "in_class separator" r] lang_sep_part_starts by blast
  then show ?thesis by (subst star_unfold) simp
qed

lemma concat_map_if_all:
  "\<forall>r\<in>set L. P r \<Longrightarrow> concat (map (\<lambda>r. if P r then g r else []) L) = concat (map g L)"
  by (induction L) auto

lemma star_sep_part_tail:
  "matches (Star sep_part) t \<noteq> [] \<and>
   (\<forall>x\<in>set (tl (matches (Star sep_part) t)). starts cchar x)"
proof (induction t rule: length_induct)
  case (1 t)
  define L where "L = matches sep_part t"
  show ?case
  proof (cases "L = []")
    case True
    then have "matches (Star sep_part) t = [t]"
      unfolding L_def by (subst star_unfold) simp
    then show ?thesis by simp
  next
    case False
    then obtain c t' where t: "t = c # t'" and c: "in_class separator c"
      and L: "L = matches (Plus (Cls lower_digit)) t'"
      unfolding L_def sep_part_def by (cases t) (auto split: if_splits)
    have short: "\<forall>r\<in>set L. length r < length t"
      using matches_suffix [of _ "Plus (Cls lower_digit)" t'] t unfolding L by fastforce
    have tail: "\<forall>r\<in>set (tl L). starts (in_class alnum) r"
      using plus_cls_tail [of _ lower_digit t'] ld_alnum unfolding L
      by (fastforce simp: starts_def split: list.splits)
    have "matches (Star sep_part) t = concat (map (matches (Star sep_part)) L) @ [t]"
      using concat_map_if_all [OF short, of "matches (Star sep_part)"]
      by (subst star_unfold) (simp add: L_def)
    also have "concat (map (matches (Star sep_part)) L) = matches (Star sep_part) (hd L) @ tl L"
      using concat_map_tail_single [of L "matches (Star sep_part)"] tail False
        star_sep_part_single by blast
    finally have eq: "matches (Star sep_part) t = matches (Star sep_part) (hd L) @ tl L @ [t]"
      by simp
    have hd_short: "length (hd L) < length t" using short False by (cases L) auto
    from 1 hd_short have IH: "matches (Star sep_part) (hd L) \<noteq> []"
      "\<forall>x\<in>set (tl (matches (Star sep_part) (hd L))). starts cchar x" by blast+
    have "starts cchar t" using t c by (simp add: starts_def cchar_def)
    moreover have "\<forall>r\<in>set (tl L). starts cchar r"
      using tail by (auto simp: starts_def cchar_def split: list.splits)
    ultimately show ?thesis unfolding eq using IH by auto
  qed
qed

lemma component_tail: "x \<in> set (tl (matches component s)) \<Longrightarrow> starts cchar x"
proof -
  assume x: "x \<in> set (tl (matches component s))"
  define L where "L = matches (Plus (Cls alnum)) s"
  have eq0: "matches component s = concat (map (matches (Star sep_part)) L)"
    by (simp add: component_alt L_def del: matches.simps(4,5)) 
  show ?thesis
  proof (cases "L = []")
    case True
    with x eq0 show ?thesis by simp
  next
    case False
    have tail: "\<forall>r\<in>set (tl L). starts (in_class alnum) r"
      using plus_cls_tail [of _ alnum s] unfolding L_def by blast
    have eq: "matches component s = matches (Star sep_part) (hd L) @ tl L"
      unfolding eq0
      using concat_map_tail_single [of L "matches (Star sep_part)"] tail False
        star_sep_part_single by blast
    have "starts cchar r" if "r \<in> set (tl L)" for r
      using tail that by (auto simp: starts_def cchar_def split: list.splits)
    then show ?thesis
      using x star_sep_part_tail [of "hd L"] unfolding eq by auto
  qed
qed

text \<open>
  Hence the group of registry and namespace matches a prefix in at most one way, and the
  loop over it is a chain.
\<close>

lemma registry_namespace_alt: "registry_namespace = Seq component after_registry"
  by (simp add: registry_namespace_def after_registry_def)

lemma after_registry_alt: "after_registry = Seq (Opt port) slash_part"
  by (simp add: after_registry_def slash_part_def)

lemma amo_seq_tail:
  assumes "\<forall>x\<in>set (tl (matches a s)). matches b x = []" and "\<And>x. length (matches b x) \<le> 1"
  shows "length (matches (Seq a b) s) \<le> 1"
  using concat_map_tail_Nil [OF assms(1)] assms(2) by (auto split: list.splits)

lemma amo_lit: "length (matches (Lit c) x) \<le> 1"
  by (cases x) auto

lemma lit_fail: "\<not> starts (\<lambda>d. d = c) x \<Longrightarrow> matches (Lit c) x = []"
  by (cases x) (auto simp: starts_def)

lemma starts_cchar_not_slash: "starts cchar x \<Longrightarrow> \<not> starts (\<lambda>d. d = CHR ''/'') x"
  using not_cchar_slash by (auto simp: starts_def split: list.splits)

lemma amo_component_slash: "length (matches (Seq component (Lit CHR ''/'')) s) \<le> 1"
proof (rule amo_seq_tail)
  show "\<forall>x\<in>set (tl (matches component s)). matches (Lit CHR ''/'') x = []"
    using component_tail starts_cchar_not_slash lit_fail by blast
qed (rule amo_lit)

lemma amo_slash_part: "length (matches slash_part s) \<le> 1"
  unfolding slash_part_def
proof (rule amo_seq_tail)
  show "\<forall>x\<in>set (tl (matches (Lit CHR ''/'') s)). matches (Seq component (Lit CHR ''/'')) x = []"
    by (cases s) auto
qed (rule amo_component_slash)

lemma lang_slash_part_starts: "u \<in> lang slash_part \<Longrightarrow> starts (\<lambda>d. d = CHR ''/'') u"
  by (auto simp: slash_part_def starts_def)

lemma opt_port_tail:
  assumes "x \<in> set (tl (matches (Opt port) s))"
  shows "matches slash_part x = []"
proof -
  have "\<not> starts (\<lambda>d. d = CHR ''/'') x"
  proof (cases "matches port s = []")
    case True
    with assms show ?thesis by simp
  next
    case False
    then obtain s' where s: "s = CHR '':'' # s'"
      and p: "matches port s = matches (Plus (Cls digit)) s'"
      unfolding port_def by (cases s) (auto split: if_splits)
    from assms False have "x \<in> set (tl (matches (Plus (Cls digit)) s')) \<or> x = s"
      unfolding p [symmetric] by auto
    then show ?thesis
    proof
      assume "x \<in> set (tl (matches (Plus (Cls digit)) s'))"
      then have "starts (in_class digit) x" by (rule plus_cls_tail)
      then show ?thesis
        by (auto simp: starts_def in_class_def digit_def split: list.splits)
    next
      assume "x = s"
      with s show ?thesis by (simp add: starts_def)
    qed
  qed
  then show ?thesis
    using matches_first [of slash_part "\<lambda>d. d = CHR ''/''" x] lang_slash_part_starts by blast
qed

lemma amo_after_registry: "length (matches after_registry s) \<le> 1"
  unfolding after_registry_alt
proof (rule amo_seq_tail)
  show "\<forall>x\<in>set (tl (matches (Opt port) s)). matches slash_part x = []"
    using opt_port_tail by blast
qed (rule amo_slash_part)

lemma lang_after_registry_starts:
  "u \<in> lang after_registry \<Longrightarrow> starts (\<lambda>d. d = CHR '':'' \<or> d = CHR ''/'') u"
  by (auto simp: after_registry_def port_def starts_def)

lemma amo_registry_namespace: "length (matches registry_namespace s) \<le> 1"
  unfolding registry_namespace_alt
proof (rule amo_seq_tail)
  show "\<forall>x\<in>set (tl (matches component s)). matches after_registry x = []"
  proof
    fix x assume "x \<in> set (tl (matches component s))"
    then have "starts cchar x" by (rule component_tail)
    then have "\<not> starts (\<lambda>d. d = CHR '':'' \<or> d = CHR ''/'') x"
      using not_cchar_slash not_cchar_colon by (auto simp: starts_def split: list.splits)
    then show "matches after_registry x = []"
      using matches_first [of after_registry "\<lambda>d. d = CHR '':'' \<or> d = CHR ''/''" x]
        lang_after_registry_starts by blast
  qed
qed (rule amo_after_registry)

lemma star_all: "v \<in> star A \<Longrightarrow> \<forall>w\<in>A. \<forall>c\<in>set w. P c \<Longrightarrow> \<forall>c\<in>set v. P c"
  by (induction rule: star.induct) auto

lemma lang_component_chars: "u \<in> lang component \<Longrightarrow> u \<noteq> [] \<and> (\<forall>c\<in>set u. cchar c)"
proof -
  assume "u \<in> lang component"
  then obtain x v w where u: "u = ([x] @ v) @ w" and x: "in_class alnum x"
    and v: "v \<in> star (lang (Cls alnum))" and w: "w \<in> star (lang sep_part)"
    unfolding component_alt by auto
  have "\<forall>w\<in>lang (Cls alnum). \<forall>c\<in>set w. cchar c"
    by (auto simp: cchar_def)
  then have "\<forall>c\<in>set v. cchar c"
    by (rule star_all [OF v])
  moreover have "\<forall>c\<in>set w. cchar c"
  proof (rule star_all [OF w])
    show "\<forall>w\<in>lang sep_part. \<forall>c\<in>set w. cchar c"
    proof (intro ballI)
      fix w c assume "w \<in> lang sep_part" "c \<in> set w"
      then obtain y z t where "w = [y] @ [z] @ t" "in_class separator y" "in_class lower_digit z"
        "t \<in> star (lang (Cls lower_digit))"
        unfolding sep_part_def by auto
      moreover have "\<forall>w\<in>lang (Cls lower_digit). \<forall>c\<in>set w. cchar c"
        using ld_alnum by (auto simp: cchar_def)
      then have "\<forall>c\<in>set t. cchar c"
        by (rule star_all [OF \<open>t \<in> star (lang (Cls lower_digit))\<close>])
      ultimately show "cchar c" using \<open>c \<in> set w\<close> ld_alnum by (auto simp: cchar_def)
    qed
  qed
  ultimately show ?thesis using u x by (auto simp: cchar_def)
qed

lemma lang_registry_namespace_slash: "u \<in> lang registry_namespace \<Longrightarrow> CHR ''/'' \<in> set u"
  by (auto simp: registry_namespace_def)

lemma star_registry_namespace:
  "matches (Star registry_namespace) s =
     (case matches registry_namespace s of
        [] \<Rightarrow> [s]
      | t # _ \<Rightarrow> matches (Star registry_namespace) t @ [s])"
proof (cases "matches registry_namespace s")
  case Nil
  then show ?thesis by (subst star_unfold) simp
next
  case (Cons t rest)
  with amo_registry_namespace [of s] have one: "matches registry_namespace s = [t]" by simp
  then have "t \<in> set (matches registry_namespace s)" by simp
  then obtain u where "u \<in> lang registry_namespace" "s = u @ t"
    using matches_lang [of registry_namespace s] by auto
  then have "length t < length s" using lang_registry_namespace_slash [of u] by (cases u) auto
  then show ?thesis using one by (subst star_unfold) simp
qed

text \<open>
  If some way of matching the pattern consumes the whole string, the first one the search
  finds does.
\<close>

lemma imageValidator_matches:
  "matches imageValidator s =
     concat (map (matches component) (matches (Star registry_namespace) s))"
  by (simp add: imageValidator_def del: matches.simps(4))

lemma imageValidator_unfold:
  "matches imageValidator s =
     (case matches registry_namespace s of
        [] \<Rightarrow> matches component s
      | t # _ \<Rightarrow> matches imageValidator t @ matches component s)"
  unfolding imageValidator_matches
  by (subst star_registry_namespace) (simp split: list.splits)

lemma component_full_first:
  assumes "[] \<in> set (matches component s)"
  shows "\<exists>rest. matches component s = [] # rest"
proof (cases "matches component s")
  case Nil
  with assms show ?thesis by simp
next
  case (Cons t rest)
  have "[] \<notin> set rest" using component_tail [of "[]" s] Cons by (auto simp: starts_def)
  with assms Cons show ?thesis by auto
qed

lemma imageValidator_full_first:
  "[] \<in> set (matches imageValidator s) \<Longrightarrow> \<exists>rest. matches imageValidator s = [] # rest"
proof (induction s rule: length_induct)
  case (1 s)
  show ?case
  proof (cases "matches registry_namespace s")
    case Nil
    then have eq: "matches imageValidator s = matches component s"
      by (subst imageValidator_unfold) simp
    with 1 component_full_first show ?thesis by simp
  next
    case (Cons t rest)
    then have eq: "matches imageValidator s = matches imageValidator t @ matches component s"
      by (subst imageValidator_unfold) simp
    from Cons have "t \<in> set (matches registry_namespace s)" by simp
    then obtain u where u: "u \<in> lang registry_namespace" "s = u @ t"
      using matches_lang [of registry_namespace s] by auto
    then have slash: "CHR ''/'' \<in> set s" and short: "length t < length s"
      using lang_registry_namespace_slash [of u] by (cases u; auto)+
    have "[] \<notin> set (matches component s)"
    proof
      assume "[] \<in> set (matches component s)"
      then have "s \<in> lang component" using matches_lang [of component s] by auto
      then show False using lang_component_chars [of s] slash not_cchar_slash by auto
    qed
    with 1(2) eq have "[] \<in> set (matches imageValidator t)" by auto
    with 1(1) short obtain r where "matches imageValidator t = [] # r" by blast
    with eq show ?thesis by simp
  qed
qed

subsection \<open>The validator\<close>

lemma FindString_le: "length (FindString re s) \<le> length s"
proof (induction s)
  case Nil
  show ?case by (subst FindString.simps) (simp split: list.splits)
next
  case (Cons c cs)
  then show ?case by (subst FindString.simps) (auto split: list.splits)
qed

lemma FindString_no_match_here:
  "matches re (c # cs) = [] \<Longrightarrow> length (FindString re (c # cs)) < length (c # cs)"
  using FindString_le [of re cs] by (subst FindString.simps) simp

lemma FindString_match_here:
  "matches re s = t # rest \<Longrightarrow> length (FindString re s) = length s - length t"
  using matches_suffix [of t re s] by (subst FindString.simps) simp

lemma lang_imageValidator_nonempty: "[] \<notin> lang imageValidator"
  using lang_component_chars by (auto simp: imageValidator_def)

lemma validImage_empty: "validImage []"
  by (simp add: validImage_def, subst FindString.simps) (simp split: list.splits)

text \<open>
  What \<^verbatim>\<open>validImage\<close> computes: on a non-empty string, whether the whole string is a word
  of the pattern. On the empty string \<^verbatim>\<open>FindString\<close> finds no match and returns the empty
  string, whose length is the length of the input.
\<close>

lemma validImage_characterised:
  "validImage s \<longleftrightarrow> (s = [] \<or> s \<in> lang imageValidator)"
proof (cases s)
  case Nil
  then show ?thesis using validImage_empty by simp
next
  case (Cons c cs)
  have full: "s \<in> lang imageValidator \<longleftrightarrow> [] \<in> set (matches imageValidator s)"
    using matches_lang [of imageValidator s] by auto
  show ?thesis
  proof (cases "matches imageValidator s")
    case Nil
    then have "\<not> validImage s"
      using FindString_no_match_here [of imageValidator c cs] Cons by (simp add: validImage_def)
    with Nil full Cons show ?thesis by simp
  next
    case m: (Cons t rest)
    have len: "length t \<le> length s" using matches_suffix [of t imageValidator s] m by simp
    have "validImage s \<longleftrightarrow> length s - length t = length s"
      using FindString_match_here [OF m] by (simp add: validImage_def)
    also have "\<dots> \<longleftrightarrow> length t = 0"
    proof -
      have "0 < length s" using Cons by simp
      with len show ?thesis by arith
    qed
    finally have "validImage s \<longleftrightarrow> t = []" by simp
    moreover have "[] \<in> set (matches imageValidator s) \<longleftrightarrow> t = []"
      using imageValidator_full_first [of s] m by auto
    ultimately show ?thesis using full Cons by simp
  qed
qed

text \<open>
  C1, as amended. On every non-empty string the validator accepts exactly the words of
  the pattern of \<^verbatim>\<open>imageValidator\<close>, matched over the entire length: a match of a
  proper prefix, or one that starts later, is rejected, never truncated and accepted.
\<close>

theorem validImage_iff_full_match:
  "s \<noteq> [] \<Longrightarrow> validImage s \<longleftrightarrow> s \<in> lang imageValidator"
  by (simp add: validImage_characterised)

text \<open>C1, as amended, at a reference with a registry and a namespace.\<close>

theorem validImage_iff_full_match_witness:
  "''docker.io/alexellis/figlet'' \<noteq> [] \<and> validImage ''docker.io/alexellis/figlet'' \<and>
   ''docker.io/alexellis/figlet'' \<in> lang imageValidator"
proof -
  have v: "validImage ''docker.io/alexellis/figlet''" by code_simp
  with validImage_iff_full_match [of "''docker.io/alexellis/figlet''"]
  show ?thesis by simp
qed

text \<open>
  Whether a string is a word of a pattern can be computed: the search finds a match that
  consumes all of it.
\<close>

lemma full_match_iff: "s \<in> lang r \<longleftrightarrow> [] \<in> set (matches r s)"
  using matches_lang [of r s] by auto

text \<open>
  C1 as stated fails in both directions, and at the empty string. The pattern has no tag
  part and takes registry and namespace in pairs: the reference \<^verbatim>\<open>acct/svc:abc123\<close> is a
  word of the grammar \<^verbatim>\<open>registry[/namespace...]/name[:tag]\<close> and is rejected. The
  pattern matches a name alone: \<^verbatim>\<open>figlet\<close> is accepted and is no word of that grammar.
  The empty string is accepted and is a word of neither.
\<close>

theorem validImage_differs_from_claimed_grammar:
  "''acct/svc:abc123'' \<in> lang claimed_reference \<and> \<not> validImage ''acct/svc:abc123'' \<and>
   validImage ''figlet'' \<and> ''figlet'' \<notin> lang claimed_reference \<and>
   validImage [] \<and> [] \<notin> lang claimed_reference \<and> [] \<notin> lang imageValidator"
proof -
  have "[] \<in> set (matches claimed_reference ''acct/svc:abc123'')" by code_simp
  moreover have "\<not> validImage ''acct/svc:abc123''" by code_simp
  moreover have "validImage ''figlet''" by code_simp
  moreover have "[] \<notin> set (matches claimed_reference ''figlet'')" by code_simp
  moreover have "[] \<notin> set (matches claimed_reference [])" by code_simp
  ultimately show ?thesis
    using validImage_empty lang_imageValidator_nonempty by (simp add: full_match_iff)
qed

text \<open>
  More of what the pattern rejects: a tag after a registry and a namespace, and a
  reference with a single slash.
\<close>

lemma validImage_rejects_tag: "\<not> validImage ''reg/ns/name:tag''"
  by code_simp

lemma validImage_rejects_single_slash: "\<not> validImage ''acct/svc''"
  by code_simp

section \<open>Properties of the Deployment Client and the Status Reporter\<close>

lemma listed_iff: "listed fs n \<longleftrightarrow> n \<in> Name ` set fs"
  by (induction fs) auto

lemma requests_append [simp]: "requests (xs @ ys) = requests xs @ requests ys"
  by (simp add: requests_def)

lemma requests_Nil [simp]: "requests [] = []"
  by (simp add: requests_def)

lemma requests_Cons [simp]:
  "requests (e # es) = (case e of HttpDo r \<Rightarrow> [r] | _ \<Rightarrow> []) @ requests es"
  by (simp add: requests_def)

lemma audits_append [simp]: "audits (xs @ ys) = audits xs @ audits ys"
  by (simp add: audits_def)

lemma audits_Nil [simp]: "audits [] = []"
  by (simp add: audits_def)

lemma audits_Cons [simp]:
  "audits (e # es) = (case e of PostAudit a \<Rightarrow> [a] | _ \<Rightarrow> []) @ audits es"
  by (simp add: audits_def)

lemma requests_reportStatus [simp]: "requests (reportStatus w st d c ev) = []"
  by (simp add: reportStatus_def Let_def split: prod.splits option.splits)

lemma audits_reportStatus [simp]: "audits (reportStatus w st d c ev) = []"
  by (simp add: reportStatus_def Let_def split: prod.splits option.splits)

lemma requests_getEvent [simp]: "requests (fst (getEvent w)) = []"
  by (simp add: getEvent_def Let_def split: prod.splits option.splits sum.splits)

lemma audits_getEvent [simp]: "audits (fst (getEvent w)) = []"
  by (simp add: getEvent_def Let_def split: prod.splits option.splits sum.splits)

lemma functionExists_parses:
  assumes "url_parses w (g @ ''system/functions'')"
  shows "requests (fst (functionExists w deploy g)) = [list_request w g] \<and>
         (\<exists>err. snd (functionExists w deploy g) = Some (on_platform w deploy g, err))"
proof (cases "basic_auth_secret w")
  case (Inl e)
  then have l: "list_request w g =
      \<lparr>Method = ''GET'', URL = g @ ''system/functions'', ReqBody = [], ContentType = [],
       BasicAuth = None\<rparr>"
    by (simp add: list_request_def credential_def)
  show ?thesis
  proof (cases "http_do w (list_request w g)")
    case failed: (Inl err)
    with assms Inl l show ?thesis
      by (simp add: functionExists_def NewRequest_def AddBasicAuth_def on_platform_def)
  next
    case answered: (Inr res)
    with assms Inl l show ?thesis
      by (simp add: functionExists_def NewRequest_def AddBasicAuth_def on_platform_def listed_iff)
  qed
next
  case (Inr c)
  then have l: "list_request w g =
      \<lparr>Method = ''GET'', URL = g @ ''system/functions'', ReqBody = [], ContentType = [],
       BasicAuth = Some c\<rparr>"
    by (simp add: list_request_def credential_def)
  show ?thesis
  proof (cases "http_do w (list_request w g)")
    case failed: (Inl err)
    with assms Inr l show ?thesis
      by (simp add: functionExists_def NewRequest_def AddBasicAuth_def on_platform_def)
  next
    case answered: (Inr res)
    with assms Inr l show ?thesis
      by (simp add: functionExists_def NewRequest_def AddBasicAuth_def on_platform_def listed_iff)
  qed
qed

lemma functionExists_no_parse:
  assumes "\<not> url_parses w (g @ ''system/functions'')"
  shows "requests (fst (functionExists w deploy g)) = [] \<and>
         snd (functionExists w deploy g) = None"
  using assms
  by (cases "basic_auth_secret w")
    (simp_all add: functionExists_def NewRequest_def AddBasicAuth_def)

lemma deployFunction_parses:
  assumes "url_parses w (g @ ''system/functions'')"
  shows "requests (fst (deployFunction w deploy g)) =
           [list_request w g, upsert_request w deploy g] \<and>
         snd (deployFunction w deploy g) \<noteq> None"
proof -
  from functionExists_parses [OF assms, of deploy]
  obtain es err where fe: "functionExists w deploy g = (es, Some (on_platform w deploy g, err))"
    and es: "requests es = [list_request w g]"
    by (cases "functionExists w deploy g") auto
  show ?thesis
  proof (cases "basic_auth_secret w")
    case (Inl e)
    then have u: "upsert_request w deploy g =
        \<lparr>Method = (if on_platform w deploy g then ''PUT'' else ''POST''),
         URL = g @ ''system/functions'', ReqBody = marshal_deployment w deploy,
         ContentType = ''application/json'', BasicAuth = None\<rparr>"
      by (simp add: upsert_request_def credential_def)
    show ?thesis
    proof (cases "http_do w (upsert_request w deploy g)")
      case failed: (Inl err')
      with assms Inl u fe es show ?thesis
        by (simp add: deployFunction_def NewRequest_def AddBasicAuth_def)
    next
      case answered: (Inr res)
      with assms Inl u fe es show ?thesis
        by (simp add: deployFunction_def NewRequest_def AddBasicAuth_def Let_def)
    qed
  next
    case (Inr c)
    then have u: "upsert_request w deploy g =
        \<lparr>Method = (if on_platform w deploy g then ''PUT'' else ''POST''),
         URL = g @ ''system/functions'', ReqBody = marshal_deployment w deploy,
         ContentType = ''application/json'', BasicAuth = Some c\<rparr>"
      by (simp add: upsert_request_def credential_def)
    show ?thesis
    proof (cases "http_do w (upsert_request w deploy g)")
      case failed: (Inl err')
      with assms Inr u fe es show ?thesis
        by (simp add: deployFunction_def NewRequest_def AddBasicAuth_def)
    next
      case answered: (Inr res)
      with assms Inr u fe es show ?thesis
        by (simp add: deployFunction_def NewRequest_def AddBasicAuth_def Let_def)
    qed
  qed
qed

lemma deployFunction_no_parse:
  assumes "\<not> url_parses w (g @ ''system/functions'')"
  shows "requests (fst (deployFunction w deploy g)) = [] \<and>
         snd (deployFunction w deploy g) = None"
  using functionExists_no_parse [OF assms, of deploy]
  by (cases "functionExists w deploy g") (simp add: deployFunction_def)

lemma deployFunction_requests:
  "requests (fst (deployFunction w deploy g)) = [] \<or>
   requests (fst (deployFunction w deploy g)) = [list_request w g, upsert_request w deploy g]"
  using deployFunction_parses [of w g deploy] deployFunction_no_parse [of w g deploy] by blast


section \<open>Properties of the orchestrator\<close>

lemmas branch_congs = if_cong sum.case_cong prod.case_cong option.case_cong


lemma getEvent_status_fields [simp]:
  "getEvent (w\<lparr>makeAccessToken := m, createStatus := c\<rparr>) = getEvent w"
  by (simp add: getEvent_def Let_def cong: branch_congs)

lemma NewRequest_status_fields [simp]:
  "NewRequest (w\<lparr>makeAccessToken := m, createStatus := c\<rparr>) method u body =
     NewRequest w method u body"
  by (simp add: NewRequest_def)

lemma AddBasicAuth_status_fields [simp]:
  "AddBasicAuth (w\<lparr>makeAccessToken := m, createStatus := c\<rparr>) r = AddBasicAuth w r"
  by (simp add: AddBasicAuth_def)

lemma functionExists_status_fields [simp]:
  "functionExists (w\<lparr>makeAccessToken := m, createStatus := c\<rparr>) d g = functionExists w d g"
  by (simp add: functionExists_def Let_def cong: branch_congs)

lemma deployFunction_status_fields [simp]:
  "deployFunction (w\<lparr>makeAccessToken := m, createStatus := c\<rparr>) d g = deployFunction w d g"
  by (simp add: deployFunction_def Let_def cong: branch_congs)

lemma deployment_of_status_fields [simp]:
  "deployment_of (w\<lparr>makeAccessToken := m, createStatus := c\<rparr>) ev img = deployment_of w ev img"
  by (simp add: deployment_of_def)

lemma Handle_status_fields:
  "snd (Handle (w\<lparr>makeAccessToken := m, createStatus := c\<rparr>) req) = snd (Handle w req) \<and>
   requests (fst (Handle (w\<lparr>makeAccessToken := m, createStatus := c\<rparr>) req)) =
     requests (fst (Handle w req)) \<and>
   audits (fst (Handle (w\<lparr>makeAccessToken := m, createStatus := c\<rparr>) req)) =
     audits (fst (Handle w req))"
  by (simp add: Handle_def Let_def split: prod.splits option.splits sum.splits)

lemma statuses_posted_append [simp]:
  "statuses_posted (xs @ ys) = statuses_posted xs @ statuses_posted ys"
  by (simp add: statuses_posted_def)

lemma statuses_posted_Nil [simp]: "statuses_posted [] = []"
  by (simp add: statuses_posted_def)

lemma statuses_posted_Cons [simp]:
  "statuses_posted (e # es) =
     (case e of CreateStatus _ _ _ _ st \<Rightarrow> [st] | _ \<Rightarrow> []) @ statuses_posted es"
  by (simp add: statuses_posted_def)

lemma statuses_posted_getEvent [simp]: "statuses_posted (fst (getEvent w)) = []"
  by (simp add: getEvent_def Let_def split: prod.splits option.splits sum.splits)

lemma getEvent_secrets:
  "secrets (fst (snd (getEvent w))) =
     map (\<lambda>s. owner (fst (snd (getEvent w))) @ ''-'' @ s)
       (if getenv w ''Http_Secrets'' = [] then []
        else fst (unmarshal_secrets w (getenv w ''Http_Secrets'')))"
  by (simp add: getEvent_def Let_def split: prod.splits option.splits sum.splits)

lemma deployFunction_requestsD:
  "deployFunction w d g = (es, result) \<Longrightarrow>
     requests es = [] \<or> requests es = [list_request w g, upsert_request w d g]"
  using deployFunction_requests [of w d g] by simp

lemma Handle_requests:
  "r \<in> set (requests (fst (Handle w req))) \<Longrightarrow>
     r = build_request w req \<or> r = list_request w (getenv w ''gateway_url'') \<or>
     (\<exists>img. r = upsert_request w (deployment_of w (fst (snd (getEvent w))) img)
                 (getenv w ''gateway_url''))"
proof -
  assume r: "r \<in> set (requests (fst (Handle w req)))"
  obtain es ev err where ev: "getEvent w = (es, ev, err)" by (cases "getEvent w") auto
  have es: "requests es = []" using requests_getEvent [of w] ev by simp
  show ?thesis
  proof (cases "url_parses w (getenv w ''builder_url'' @ ''build'')")
    case False
    then have "NewRequest w ''POST'' (getenv w ''builder_url'' @ ''build'') req = None"
      by (simp add: NewRequest_def)
    with r es show ?thesis
      by (simp add: ev Handle_def Let_def split: option.splits)
  next
    case True
    then have "NewRequest w ''POST'' (getenv w ''builder_url'' @ ''build'') req =
        Some \<lparr>Method = ''POST'', URL = getenv w ''builder_url'' @ ''build'', ReqBody = req,
              ContentType = [], BasicAuth = None\<rparr>"
      by (simp add: NewRequest_def)
    with r es show ?thesis
      by (auto simp add: ev Handle_def Let_def build_request_def
          split: prod.splits option.splits sum.splits if_splits
          dest!: deployFunction_requestsD)
  qed
qed

text \<open>
  C7. Every secret name of the event \<^verbatim>\<open>getEvent\<close> builds is the owner's login, a hyphen,
  and the name read from the trigger; the descriptor built from the event carries exactly
  these names; and a request \<^verbatim>\<open>Handle\<close> sends is the build request, the list request,
  or the create-or-update request of such a descriptor.
\<close>

theorem getEvent_prefixes_secrets:
  "secrets (fst (snd (getEvent w))) =
     map (\<lambda>s. owner (fst (snd (getEvent w))) @ ''-'' @ s)
       (if getenv w ''Http_Secrets'' = [] then []
        else fst (unmarshal_secrets w (getenv w ''Http_Secrets''))) \<and>
   (\<forall>x\<in>set (secrets (fst (snd (getEvent w)))).
      prefix (owner (fst (snd (getEvent w))) @ ''-'') x) \<and>
   (\<forall>img. Secrets (deployment_of w (fst (snd (getEvent w))) img) =
      secrets (fst (snd (getEvent w)))) \<and>
   (\<forall>r\<in>set (requests (fst (Handle w req))).
      r = build_request w req \<or> r = list_request w (getenv w ''gateway_url'') \<or>
      (\<exists>img. r = upsert_request w (deployment_of w (fst (snd (getEvent w))) img)
                  (getenv w ''gateway_url'')))"
proof (intro conjI)
  show "secrets (fst (snd (getEvent w))) =
     map (\<lambda>s. owner (fst (snd (getEvent w))) @ ''-'' @ s)
       (if getenv w ''Http_Secrets'' = [] then []
        else fst (unmarshal_secrets w (getenv w ''Http_Secrets'')))"
    by (rule getEvent_secrets)
  show "\<forall>x\<in>set (secrets (fst (snd (getEvent w)))).
      prefix (owner (fst (snd (getEvent w))) @ ''-'') x"
    by (subst getEvent_secrets) auto
  show "\<forall>img. Secrets (deployment_of w (fst (snd (getEvent w))) img) =
      secrets (fst (snd (getEvent w)))"
    by (simp add: deployment_of_def Let_def)
  show "\<forall>r\<in>set (requests (fst (Handle w req))).
      r = build_request w req \<or> r = list_request w (getenv w ''gateway_url'') \<or>
      (\<exists>img. r = upsert_request w (deployment_of w (fst (snd (getEvent w))) img)
                  (getenv w ''gateway_url''))"
    using Handle_requests by blast
qed

lemma reportStatus_token_error:
  assumes "enableStatusReporting w"
    and "makeAccessToken w (getenv w ''github_app_id'') (installationID event) (getPrivateKey w)
           = (token, Some tokenErr)"
  shows "reportStatus w status desc statusContext event =
     [Print ''Status: %s, GitHub AppID: %d, Repo: %s, Owner: %s''
        [S status, I (installationID event), S (repository event), S (owner event)],
      MintToken (getenv w ''github_app_id'') (installationID event) (getPrivateKey w),
      Print ''failed to report status %v, error: %s''
        [V (buildStatus status desc statusContext (buildPublicStatusURL w status event)),
         S tokenErr]]"
  using assms by (simp add: reportStatus_def Let_def)

lemma reportStatus_api_error:
  assumes "enableStatusReporting w"
    and "makeAccessToken w (getenv w ''github_app_id'') (installationID event) (getPrivateKey w)
           = (token, None)"
    and "token \<noteq> []"
    and "createStatus w token (owner event) (repository event) (sha event)
           (buildStatus status desc statusContext (buildPublicStatusURL w status event))
           = Some apiErr"
  shows "reportStatus w status desc statusContext event =
     [Print ''Status: %s, GitHub AppID: %d, Repo: %s, Owner: %s''
        [S status, I (installationID event), S (repository event), S (owner event)],
      MintToken (getenv w ''github_app_id'') (installationID event) (getPrivateKey w),
      CreateStatus token (owner event) (repository event) (sha event)
        (buildStatus status desc statusContext (buildPublicStatusURL w status event)),
      Print ''failed to report status %v, error: %s''
        [V (buildStatus status desc statusContext (buildPublicStatusURL w status event)),
         S apiErr]]"
  using assms by (simp add: reportStatus_def Let_def)

lemma reportStatus_posts:
  assumes "enableStatusReporting w"
    and "makeAccessToken w (getenv w ''github_app_id'') (installationID event) (getPrivateKey w)
           = (token, None)"
    and "token \<noteq> []"
  shows "statuses_posted (reportStatus w status desc statusContext event) =
     [buildStatus status desc statusContext (buildPublicStatusURL w status event)]"
  using assms by (simp add: reportStatus_def Let_def split: option.splits)

text \<open>
  C8. \<^verbatim>\<open>reportStatus\<close> sends nothing to the builder or the serving platform and posts
  no audit event. When the token cannot be minted, or the commit status cannot be
  posted, it prints the failure as its last action and returns. The result of
  \<^verbatim>\<open>Handle\<close>, the requests it sends and the audit events it posts are the same
  whatever the token service and the commit-status call answer: a deployment that was
  made stays made.
\<close>

theorem reportStatus_failures_are_swallowed:
  "requests (reportStatus w status desc statusContext event) = [] \<and>
   audits (reportStatus w status desc statusContext event) = [] \<and>
   (enableStatusReporting w \<and>
    makeAccessToken w (getenv w ''github_app_id'') (installationID event) (getPrivateKey w)
      = (token, Some tokenErr) \<longrightarrow>
    reportStatus w status desc statusContext event =
      [Print ''Status: %s, GitHub AppID: %d, Repo: %s, Owner: %s''
         [S status, I (installationID event), S (repository event), S (owner event)],
       MintToken (getenv w ''github_app_id'') (installationID event) (getPrivateKey w),
       Print ''failed to report status %v, error: %s''
         [V (buildStatus status desc statusContext (buildPublicStatusURL w status event)),
          S tokenErr]]) \<and>
   (enableStatusReporting w \<and>
    makeAccessToken w (getenv w ''github_app_id'') (installationID event) (getPrivateKey w)
      = (token, None) \<and> token \<noteq> [] \<and>
    createStatus w token (owner event) (repository event) (sha event)
      (buildStatus status desc statusContext (buildPublicStatusURL w status event))
      = Some apiErr \<longrightarrow>
    reportStatus w status desc statusContext event =
      [Print ''Status: %s, GitHub AppID: %d, Repo: %s, Owner: %s''
         [S status, I (installationID event), S (repository event), S (owner event)],
       MintToken (getenv w ''github_app_id'') (installationID event) (getPrivateKey w),
       CreateStatus token (owner event) (repository event) (sha event)
         (buildStatus status desc statusContext (buildPublicStatusURL w status event)),
       Print ''failed to report status %v, error: %s''
         [V (buildStatus status desc statusContext (buildPublicStatusURL w status event)),
          S apiErr]]) \<and>
   snd (Handle (w\<lparr>makeAccessToken := m, createStatus := c\<rparr>) req) = snd (Handle w req) \<and>
   requests (fst (Handle (w\<lparr>makeAccessToken := m, createStatus := c\<rparr>) req)) =
     requests (fst (Handle w req)) \<and>
   audits (fst (Handle (w\<lparr>makeAccessToken := m, createStatus := c\<rparr>) req)) =
     audits (fst (Handle w req))"
  using reportStatus_token_error [where w = w and event = event and token = token
        and tokenErr = tokenErr and status = status and desc = desc
        and statusContext = statusContext]
    reportStatus_api_error [where w = w and event = event and token = token
        and apiErr = apiErr and status = status and desc = desc
        and statusContext = statusContext]
    Handle_status_fields [where w = w and m = m and c = c and req = req]
  by simp

text \<open>
  C10. When the event is read without error, the builder answers, both registry
  prefixes are configured and the answer trims to the empty string: the validator
  accepts the empty name, \<^verbatim>\<open>Handle\<close> sends no request but the build request, posts the
  audit event with an empty message, reports the status \<^verbatim>\<open>success\<close> for the stage
  \<^verbatim>\<open>DEPLOY\<close> with the description ending in an empty service name, and returns. This
  is the run in which the build request could be made; with a builder address that does
  not parse \<^verbatim>\<open>Handle\<close> panics on the \<^verbatim>\<open>nil\<close> request before it has sent anything.
\<close>

theorem Handle_empty_image_reports_success:
  assumes ev: "getEvent w = (eventLog, event, None)"
    and built: "http_do w (build_request w req) = Inr res"
    and conf: "getenv w ''repository_url'' \<noteq> []" "getenv w ''push_repository_url'' \<noteq> []"
    and empty: "TrimSpace (Body res) = []"
  shows "validImage (TrimSpace (Body res)) \<and>
     (url_parses w (getenv w ''builder_url'' @ ''build'') \<longrightarrow>
     Handle w req =
       (eventLog @
          [HttpDo (build_request w req),
           Print (''buildshiprun: image '' @ [CHR 0x27] @ ''%s'' @ [CHR 0x27]) [S []],
           PostAudit \<lparr>Message = [], Owner = owner event, Repo = repository event,
                       Source = ''buildshiprun''\<rparr>]
          @ reportStatus w ''success'' ''function successfully deployed as: '' ''DEPLOY'' event,
        Return (''buildStatus '' @ Body res @ '' '' @ [] @ '' '' @ resStatus res)) \<and>
     requests (fst (Handle w req)) = [build_request w req] \<and>
     (enableStatusReporting w \<and>
      makeAccessToken w (getenv w ''github_app_id'') (installationID event) (getPrivateKey w)
        = (token, None) \<and> token \<noteq> [] \<longrightarrow>
      statuses_posted (fst (Handle w req)) =
        [\<lparr>State = ''success'', TargetURL = buildPublicStatusURL w ''success'' event,
          Description = ''function successfully deployed as: '', Context = ''DEPLOY''\<rparr>])) \<and>
     (\<not> url_parses w (getenv w ''builder_url'' @ ''build'') \<longrightarrow>
      Handle w req = (eventLog, Panic nil_dereference))"
proof (cases "url_parses w (getenv w ''builder_url'' @ ''build'')")
  case True
  then have nr: "NewRequest w ''POST'' (getenv w ''builder_url'' @ ''build'') req =
      Some \<lparr>Method = ''POST'', URL = getenv w ''builder_url'' @ ''build'', ReqBody = req,
            ContentType = [], BasicAuth = None\<rparr>"
    by (simp add: NewRequest_def)
  have H: "Handle w req =
       (eventLog @
          [HttpDo (build_request w req),
           Print (''buildshiprun: image '' @ [CHR 0x27] @ ''%s'' @ [CHR 0x27]) [S []],
           PostAudit \<lparr>Message = [], Owner = owner event, Repo = repository event,
                       Source = ''buildshiprun''\<rparr>]
          @ reportStatus w ''success'' ''function successfully deployed as: '' ''DEPLOY'' event,
        Return (''buildStatus '' @ Body res @ '' '' @ [] @ '' '' @ resStatus res))"
    using assms validImage_empty by (simp add: Handle_def Let_def build_request_def nr)
  have r: "requests eventLog = []" using requests_getEvent [of w] ev by simp
  have s: "statuses_posted eventLog = []" using statuses_posted_getEvent [of w] ev by simp
  show ?thesis
    using True reportStatus_posts [where w = w and event = event and token = token
        and status = "''success''" and desc = "''function successfully deployed as: ''"
        and statusContext = "''DEPLOY''"]
    by (simp add: H r s empty validImage_empty buildStatus_def)
next
  case False
  then have "NewRequest w ''POST'' (getenv w ''builder_url'' @ ''build'') req = None"
    by (simp add: NewRequest_def)
  then have "Handle w req = (eventLog, Panic nil_dereference)"
    by (simp add: Handle_def Let_def ev)
  with False show ?thesis by (simp add: empty validImage_empty)
qed

lemma Handle_invalid_image:
  assumes ev: "getEvent w = (eventLog, event, None)"
    and parses: "url_parses w (getenv w ''builder_url'' @ ''build'')"
    and built: "http_do w (build_request w req) = Inr res"
    and conf: "getenv w ''repository_url'' \<noteq> []" "getenv w ''push_repository_url'' \<noteq> []"
    and bad: "\<not> validImage (TrimSpace (Body res))"
  shows "Handle w req =
     (eventLog @
        [HttpDo (build_request w req),
         Print (''buildshiprun: image '' @ [CHR 0x27] @ ''%s'' @ [CHR 0x27]) [S (TrimSpace (Body res))]]
        @ reportStatus w ''failure'' ''Unable to build image, check builder logs'' ''DEPLOY'' event
        @ [Print ''%s'' [S ''Unable to build image, check builder logs'']],
      Exit 1)"
  using assms by (simp add: Handle_def Let_def build_request_def NewRequest_def)

lemma Handle_invalid_image_no_audit:
  assumes ev: "getEvent w = (eventLog, event, None)"
    and parses: "url_parses w (getenv w ''builder_url'' @ ''build'')"
    and built: "http_do w (build_request w req) = Inr res"
    and conf: "getenv w ''repository_url'' \<noteq> []" "getenv w ''push_repository_url'' \<noteq> []"
    and bad: "\<not> validImage (TrimSpace (Body res))"
  shows "snd (Handle w req) = Exit 1 \<and> audits (fst (Handle w req)) = [] \<and>
         requests (fst (Handle w req)) = [build_request w req]"
proof -
  have "audits eventLog = []" "requests eventLog = []"
    using audits_getEvent [of w] requests_getEvent [of w] ev by simp_all
  then show ?thesis by (simp add: Handle_invalid_image [OF assms])
qed

text \<open>
  The deployment block on the \<^verbatim>\<open>nil\<close> request: when the builder answered with a valid,
  non-empty image name and the gateway address does not parse, \<^verbatim>\<open>Handle\<close> panics after
  the build request, with no audit event.
\<close>

lemma Handle_bad_gateway_panics:
  assumes ev: "getEvent w = (eventLog, event, None)"
    and parses: "url_parses w (getenv w ''builder_url'' @ ''build'')"
    and built: "http_do w (build_request w req) = Inr res"
    and conf: "getenv w ''repository_url'' \<noteq> []" "getenv w ''push_repository_url'' \<noteq> []"
    and valid: "validImage (TrimSpace (Body res))" "TrimSpace (Body res) \<noteq> []"
    and gateway: "\<not> url_parses w (getenv w ''gateway_url'' @ ''system/functions'')"
  shows "snd (Handle w req) = Panic nil_dereference \<and> audits (fst (Handle w req)) = [] \<and>
         requests (fst (Handle w req)) = [build_request w req]"
proof -
  let ?d = "deployment_of w event
      (getImageName (getenv w ''repository_url'') (getenv w ''push_repository_url'')
         (TrimSpace (Body res)))"
  from deployFunction_no_parse [OF gateway, of ?d]
  obtain es where d: "deployFunction w ?d (getenv w ''gateway_url'') = (es, None)"
    and es: "requests es = []"
    by (cases "deployFunction w ?d (getenv w ''gateway_url'')") auto
  have a: "audits es = []"
    using d gateway
    by (cases "basic_auth_secret w")
      (auto simp add: deployFunction_def functionExists_def NewRequest_def AddBasicAuth_def)
  have "audits eventLog = []" "requests eventLog = []"
    using audits_getEvent [of w] requests_getEvent [of w] ev by simp_all
  with ev parses built conf valid d es a show ?thesis
    by (simp add: Handle_def Let_def build_request_def NewRequest_def)
qed

lemmas example_defs = example_world_def example_env_def example_http_def

lemma example_secrets_json_nonempty [simp]: "example_secrets_json \<noteq> []"
  by (simp add: example_secrets_json_def)

lemma deployment_of_fields [simp]:
  "Service (deployment_of w ev img) = serviceValue_of ev"
  "Image (deployment_of w ev img) = img"
  "Secrets (deployment_of w ev img) = secrets ev"
  by (simp_all add: deployment_of_def Let_def)




text \<open>C7 at the concrete event: both secret names carry the prefix \<^verbatim>\<open>alexellis-\<close>.\<close>

theorem getEvent_prefixes_secrets_witness:
  "secrets (fst (snd (getEvent (example_world [])))) = [''alexellis-api-key'', ''alexellis-db-pass'']
   \<and> Secrets example_deployment = [''alexellis-api-key'', ''alexellis-db-pass'']"
  using getEvent_prefixes_secrets [of "example_world []" "[]"]
  by (simp add: example_defs getEvent_def example_deployment_def example_event_def)


lemma example_getEvent:
  "getEvent (example_world built) =
     ([Print ''%d env-vars for %s'' [I 0, S ''figlet'']], example_event, None)"
  by (simp add: getEvent_def example_defs example_event_def)

lemma example_getenv: "getenv (example_world built) = example_env"
  by (simp add: example_defs)

lemma example_conf:
  "getenv (example_world built) ''repository_url'' \<noteq> []"
  "getenv (example_world built) ''push_repository_url'' \<noteq> []"
  by (simp_all add: example_getenv example_env_def)

lemma example_parses:
  "url_parses (example_world built) (getenv (example_world built) ''builder_url'' @ ''build'')"
  by (simp add: example_world_def example_env_def)

lemma example_built:
  "http_do (example_world built) (build_request (example_world built) req) =
     Inr \<lparr>resStatus = ''200 OK'', StatusCode = 200, Body = built\<rparr>"
  by (simp add: build_request_def example_defs)

lemma example_event_fields:
  "owner example_event = ''alexellis''" "repository example_event = ''figlet-fn''"
  "sha example_event = ''abc123''" "installationID example_event = 7"
  "service example_event = ''figlet''" "url example_event = []"
  by (simp_all add: example_event_def)

lemma token_failure_getenv: "getenv (token_failure_world built) = example_env"
  by (simp add: token_failure_world_def example_defs)

text \<open>C8 at a world whose token service fails: the failure is printed, nothing else.\<close>

theorem reportStatus_failures_are_swallowed_witness:
  "enableStatusReporting (token_failure_world []) \<and>
   reportStatus (token_failure_world []) ''success'' ''deployed'' ''DEPLOY'' example_event =
     [Print ''Status: %s, GitHub AppID: %d, Repo: %s, Owner: %s''
        [S ''success'', I 7, S ''figlet-fn'', S ''alexellis''],
      MintToken ''1234'' 7 ''/var/openfaas/secrets/private-key'',
      Print ''failed to report status %v, error: %s''
        [V \<lparr>State = ''success'', TargetURL = [], Description = ''deployed'',
              Context = ''DEPLOY''\<rparr>,
         S ''private key not found'']]"
proof -
  have e: "enableStatusReporting (token_failure_world [])"
    by (simp add: enableStatusReporting_def token_failure_getenv example_env_def)
  have k: "getPrivateKey (token_failure_world []) = ''/var/openfaas/secrets/private-key''"
    by (simp add: getPrivateKey_def token_failure_getenv example_env_def defaultPrivateKeyName_def)
  have a: "getenv (token_failure_world []) ''github_app_id'' = ''1234''"
    by (simp add: token_failure_getenv example_env_def)
  have m: "makeAccessToken (token_failure_world [])
             (getenv (token_failure_world []) ''github_app_id'') (installationID example_event)
             (getPrivateKey (token_failure_world [])) = ([], Some ''private key not found'')"
    by (simp add: token_failure_world_def)
  have u: "buildPublicStatusURL (token_failure_world []) ''success'' example_event = []"
    by (simp add: buildPublicStatusURL_def token_failure_getenv example_env_def
        example_event_fields)
  from e m reportStatus_failures_are_swallowed [where w = "token_failure_world []"
        and event = example_event and token = "[]"
        and tokenErr = "''private key not found''" and status = "''success''"
        and desc = "''deployed''" and statusContext = "''DEPLOY''"]
  have "reportStatus (token_failure_world []) ''success'' ''deployed'' ''DEPLOY'' example_event =
      [Print ''Status: %s, GitHub AppID: %d, Repo: %s, Owner: %s''
         [S ''success'', I (installationID example_event), S (repository example_event),
          S (owner example_event)],
       MintToken (getenv (token_failure_world []) ''github_app_id'')
         (installationID example_event) (getPrivateKey (token_failure_world [])),
       Print ''failed to report status %v, error: %s''
         [V (buildStatus ''success'' ''deployed'' ''DEPLOY''
               (buildPublicStatusURL (token_failure_world []) ''success'' example_event)),
          S ''private key not found'']]"
    by blast
  then show ?thesis
    using e by (simp add: k a u example_event_fields buildStatus_def)
qed

text \<open>C10 at a builder that answers with a single newline.\<close>

theorem Handle_empty_image_reports_success_witness:
  "TrimSpace [CHR 0x0A] = [] \<and>
   snd (Handle (example_world [CHR 0x0A]) ''tar'') =
     Return (''buildStatus '' @ [CHR 0x0A] @ ''  200 OK'') \<and>
   requests (fst (Handle (example_world [CHR 0x0A]) ''tar'')) =
     [build_request (example_world [CHR 0x0A]) ''tar''] \<and>
   statuses_posted (fst (Handle (example_world [CHR 0x0A]) ''tar'')) =
     [\<lparr>State = ''success'', TargetURL = [],
       Description = ''function successfully deployed as: '', Context = ''DEPLOY''\<rparr>]"
proof -
  let ?w = "example_world [CHR 0x0A]"
  let ?res = "\<lparr>resStatus = ''200 OK'', StatusCode = 200, Body = [CHR 0x0A]\<rparr>"
  have t: "TrimSpace [CHR 0x0A] = []" by code_simp
  then have empty: "TrimSpace (Body ?res) = []" by simp
  have e: "enableStatusReporting ?w"
    by (simp add: enableStatusReporting_def example_getenv example_env_def)
  have m: "makeAccessToken ?w (getenv ?w ''github_app_id'') (installationID example_event)
             (getPrivateKey ?w) = (''token'', None)"
    by (simp add: example_world_def)
  have b: "buildPublicStatusURL ?w ''success'' example_event = []"
    by (simp add: buildPublicStatusURL_def example_getenv example_env_def example_event_fields)
  note T = Handle_empty_image_reports_success [OF example_getEvent
      example_built [where req = "''tar''"] example_conf empty, where token = "''token''"]
  note u = example_parses [of "[CHR 0x0A]"]
  from T u have "snd (Handle ?w ''tar'') = Return (''buildStatus '' @ [CHR 0x0A] @ ''  200 OK'')"
    by simp
  moreover from T u have "requests (fst (Handle ?w ''tar'')) = [build_request ?w ''tar'']"
    by blast
  moreover from T u e m have "statuses_posted (fst (Handle ?w ''tar'')) =
     [\<lparr>State = ''success'', TargetURL = buildPublicStatusURL ?w ''success'' example_event,
       Description = ''function successfully deployed as: '', Context = ''DEPLOY''\<rparr>]"
    by blast
  ultimately show ?thesis using t b by simp
qed

text \<open>
  C3, at a builder answer that is not an image name. The failure status is reported and
  no deployment is attempted, but \<^verbatim>\<open>log.Fatal\<close> ends the process: no audit event is
  posted and nothing is returned.
\<close>

theorem Handle_invalid_image_exits_without_audit:
  "\<not> validImage (TrimSpace (''failed to solve: exit code 2'' @ [CHR 0x0A])) \<and>
   snd (Handle (example_world (''failed to solve: exit code 2'' @ [CHR 0x0A])) ''tar'') = Exit 1 \<and>
   audits (fst (Handle (example_world (''failed to solve: exit code 2'' @ [CHR 0x0A])) ''tar'')) = [] \<and>
   requests (fst (Handle (example_world (''failed to solve: exit code 2'' @ [CHR 0x0A])) ''tar'')) =
     [build_request (example_world (''failed to solve: exit code 2'' @ [CHR 0x0A])) ''tar'']"
proof -
  let ?b = "''failed to solve: exit code 2'' @ [CHR 0x0A]"
  let ?res = "\<lparr>resStatus = ''200 OK'', StatusCode = 200, Body = ?b\<rparr>"
  have t: "\<not> validImage (TrimSpace ?b)" by code_simp
  then have bad: "\<not> validImage (TrimSpace (Body ?res))" by simp
  from Handle_invalid_image_no_audit [OF example_getEvent example_parses
      example_built [where req = "''tar''"] example_conf bad] t
  show ?thesis by blast
qed

section \<open>Properties of the Build Service\<close>

lemma drain_vertexes_lines:
  "drain_vertexes w b vs = Some b' \<Longrightarrow>
     Line b' = Line b @ concat (map (\<lambda>v. case vertex_line w v of None \<Rightarrow> [] | Some msg \<Rightarrow> [msg]) vs)"
  by (induction vs arbitrary: b) (auto simp: Append_def split: option.splits)

lemma drain_vertexes_length:
  "drain_vertexes w b vs = Some b' \<Longrightarrow> length (Line b') = length (Line b) + length vs"
  by (induction vs arbitrary: b) (auto simp: Append_def split: option.splits)

lemma drain_statuses_lines:
  "Line (drain_statuses w b ss) = Line b @ map (status_line w) ss"
  by (induction ss arbitrary: b) (auto simp: Append_def)

lemma drain_logs_lines:
  "Line (drain_logs w b ls) = Line b @ map (log_line w) ls"
  by (induction ls arbitrary: b) (auto simp: Append_def)

lemma drain_lines:
  "drain w b ch = Some b' \<Longrightarrow> Line b' = Line b @ concat (map (lines_of w) ch)"
proof (induction ch arbitrary: b)
  case Nil
  then show ?case by simp
next
  case (Cons s ch)
  from Cons.prems obtain b1 where b1: "drain_vertexes w b (Vertexes s) = Some b1"
    and rest: "drain w (drain_logs w (drain_statuses w b1 (Statuses s)) (Logs s)) ch = Some b'"
    by (auto split: option.splits)
  have "Line b' = Line (drain_logs w (drain_statuses w b1 (Statuses s)) (Logs s))
                    @ concat (map (lines_of w) ch)"
    by (rule Cons.IH [OF rest])
  also have "Line (drain_logs w (drain_statuses w b1 (Statuses s)) (Logs s)) =
               Line b @ lines_of w s"
    by (simp add: drain_logs_lines drain_statuses_lines drain_vertexes_lines [OF b1] lines_of_def)
  finally show ?case by simp
qed

lemma drain_length:
  "drain w b ch = Some b' \<Longrightarrow> length (Line b') = length (Line b) + count_events ch"
proof (induction ch arbitrary: b)
  case Nil
  then show ?case by (simp add: count_events_def)
next
  case (Cons s ch)
  from Cons.prems obtain b1 where b1: "drain_vertexes w b (Vertexes s) = Some b1"
    and rest: "drain w (drain_logs w (drain_statuses w b1 (Statuses s)) (Logs s)) ch = Some b'"
    by (auto split: option.splits)
  have "length (Line b') =
          length (Line (drain_logs w (drain_statuses w b1 (Statuses s)) (Logs s)))
            + count_events ch"
    by (rule Cons.IH [OF rest])
  also have "length (Line (drain_logs w (drain_statuses w b1 (Statuses s)) (Logs s))) =
               length (Line b) + length (Vertexes s) + length (Statuses s) + length (Logs s)"
    by (simp add: drain_logs_lines drain_statuses_lines drain_vertexes_length [OF b1])
  finally show ?case by (simp add: count_events_def)
qed

lemma solves_simps [simp]:
  "solves [] = []"
  "solves (e # es) = (case e of Solve opt \<Rightarrow> [opt] | _ \<Rightarrow> []) @ solves es"
  "solves (xs @ ys) = solves xs @ solves ys"
  by (simp_all add: solves_def)

text \<open>
  C9. When the archive unpacks and the config file parses to a config whose target
  reference is empty, \<^verbatim>\<open>build\<close> returns the error \<^verbatim>\<open>no target reference to push\<close>
  after reading the config: it has neither connected to the build engine nor submitted
  a solve request, and the handler answers with status 500.
\<close>

theorem build_empty_reference_fails_before_solve:
  assumes "tempDir w = Inr tmpdir"
    and "untar w body tmpdir (\<not> lchownEnabled w) = None"
    and "readFile w (tmpdir @ ''/config'') = Inr dt"
    and "unmarshal_config w dt = Inr cfg"
    and "Ref cfg = []"
  shows "build w body =
           ([MkTempDir, Untar tmpdir (\<not> lchownEnabled w), ReadFile (tmpdir @ ''/config''),
             RemoveAll tmpdir],
            Some (None, Some ''no target reference to push'')) \<and>
         solves (fst (build w body)) = [] \<and>
         ClientNew \<notin> set (fst (build w body)) \<and>
         snd (buildHandler w body) =
           Some \<lparr>code = 500,
                  written = Some \<lparr>Log = None, ImageName = [],
                                   Status = ''unexpected failure: no target reference to push''\<rparr>\<rparr>"
  using assms by (simp add: build_def buildHandler_def Let_def)


text \<open>
  C2, as amended. When \<^verbatim>\<open>build\<close> returns an error, the handler answers with status 500
  and a \<^verbatim>\<open>BuildResult\<close> as its body. Either the failure came before the solve: no solve
  request was submitted, the status is \<^verbatim>\<open>unexpected failure: <message>\<close>, the image
  name is empty and the log is \<^verbatim>\<open>null\<close>. Or the solve failed: the status is
  \<^verbatim>\<open>failure: <message>\<close>, the image name is the target reference of the config, and the
  log is exactly the lines of the events the engine sent, in their order, one line for
  each vertex, status and log.
\<close>

theorem buildHandler_failure_reply:
  assumes "snd (build w body) = Some (dt, Some err)"
  shows "(dt = None \<and> solves (fst (build w body)) = [] \<and>
          snd (buildHandler w body) =
            Some \<lparr>code = 500,
                   written = Some \<lparr>Log = None, ImageName = [],
                                    Status = ''unexpected failure: '' @ err\<rparr>\<rparr>)
       \<or> (\<exists>tmpdir cfgbytes cfg ch b.
            tempDir w = Inr tmpdir \<and> readFile w (tmpdir @ ''/config'') = Inr cfgbytes \<and>
            unmarshal_config w cfgbytes = Inr cfg \<and> Ref cfg \<noteq> [] \<and>
            solves (fst (build w body)) = [solveOpt_of w tmpdir cfg] \<and>
            solve w (solveOpt_of w tmpdir cfg) = (ch, Some err) \<and>
            drain w \<lparr>Line = [], Sync = False\<rparr> ch = Some b \<and>
            Line b = concat (map (lines_of w) ch) \<and> length (Line b) = count_events ch \<and>
            snd (buildHandler w body) =
              Some \<lparr>code = 500,
                     written = Some \<lparr>Log = Some (Line b), ImageName = Ref cfg,
                                      Status = ''failure: '' @ err\<rparr>\<rparr>)"
proof (cases "tempDir w")
  case (Inl e)
  with assms show ?thesis by (simp add: build_def buildHandler_def)
next
  case tmp: (Inr tmpdir)
  show ?thesis
  proof (cases "untar w body tmpdir (\<not> lchownEnabled w)")
    case (Some e)
    with assms tmp show ?thesis by (simp add: build_def buildHandler_def Let_def)
  next
    case untarred: None
    show ?thesis
    proof (cases "readFile w (tmpdir @ ''/config'')")
      case (Inl e)
      with assms tmp untarred show ?thesis by (simp add: build_def buildHandler_def Let_def)
    next
      case rd: (Inr cfgbytes)
      show ?thesis
      proof (cases "unmarshal_config w cfgbytes")
        case (Inl e)
        with assms tmp untarred rd show ?thesis
          by (simp add: build_def buildHandler_def Let_def)
      next
        case parsed: (Inr cfg)
        show ?thesis
        proof (cases "Ref cfg = []")
          case True
          with assms tmp untarred rd parsed show ?thesis
            by (simp add: build_def buildHandler_def Let_def)
        next
          case ref: False
          show ?thesis
          proof (cases "client_new w")
            case (Some e)
            with assms tmp untarred rd parsed ref show ?thesis
              by (simp add: build_def buildHandler_def Let_def)
          next
            case connected: None
            obtain ch solveErr where sv: "solve w (solveOpt_of w tmpdir cfg) = (ch, solveErr)"
              by (cases "solve w (solveOpt_of w tmpdir cfg)") auto
            show ?thesis
            proof (cases "drain w \<lparr>Line = [], Sync = False\<rparr> ch")
              case None
              with assms tmp untarred rd parsed ref connected sv show ?thesis
                by (simp add: build_def Let_def)
            next
              case drained: (Some b)
              show ?thesis
              proof (cases solveErr)
                case None
                with assms tmp untarred rd parsed ref connected sv drained show ?thesis
                  by (simp add: build_def Let_def)
              next
                case failed: (Some e)
                have B: "build w body =
                    ([MkTempDir, Untar tmpdir (\<not> lchownEnabled w), ReadFile (tmpdir @ ''/config''),
                      ClientNew, Solve (solveOpt_of w tmpdir cfg), RemoveAll tmpdir],
                     Some (Some \<lparr>Log = Some (Line b), ImageName = Ref cfg,
                                  Status = ''failure: '' @ e\<rparr>, Some e))"
                  using tmp untarred rd parsed ref connected sv drained failed
                  by (simp add: build_def Let_def)
                with assms have e: "e = err" by simp
                have "Line b = concat (map (lines_of w) ch)" "length (Line b) = count_events ch"
                  using drain_lines [OF drained] drain_length [OF drained] by simp_all
                with B e tmp rd parsed ref sv drained failed show ?thesis
                  by (simp add: buildHandler_def)
              qed
            qed
          qed
        qed
      qed
    qed
  qed
qed

lemma example_build_failed:
  "build (example_builder \<lparr>Ref = ''acct/svc:abc123'', Frontend = []\<rparr> example_events
            (Some ''exit code 2'')) ''tar'' =
     ([MkTempDir, Untar ''/tmp/buildctx1'' False, ReadFile ''/tmp/buildctx1/config'', ClientNew,
       Solve \<lparr>Exporter = ''image'',
               ExporterAttrs = [(''name'', ''acct/svc:abc123''), (''push'', ''true'')],
               LocalDirs = [(''context'', ''/tmp/buildctx1/context''),
                            (''dockerfile'', ''/tmp/buildctx1/context'')],
               soFrontend = ''dockerfile.v0'',
               FrontendAttrs = [(''source'', ''tonistiigi/dockerfile:v0'')],
               Session = [''DockerAuthProvider'']\<rparr>,
       RemoveAll ''/tmp/buildctx1''],
      Some (Some \<lparr>Log = Some [''v: 1 load build definition'', ''s: 2 transferring 10'',
                               ''l: 3 step 1''],
                   ImageName = ''acct/svc:abc123'', Status = ''failure: exit code 2''\<rparr>,
            Some ''exit code 2''))"
  by code_simp

text \<open>C2, as amended, at an engine that sends three events and fails.\<close>

theorem buildHandler_failure_reply_witness:
  "snd (buildHandler (example_builder \<lparr>Ref = ''acct/svc:abc123'', Frontend = []\<rparr>
          example_events (Some ''exit code 2'')) ''tar'') =
     Some \<lparr>code = 500,
            written = Some \<lparr>Log = Some [''v: 1 load build definition'', ''s: 2 transferring 10'',
                                        ''l: 3 step 1''],
                             ImageName = ''acct/svc:abc123'',
                             Status = ''failure: exit code 2''\<rparr>\<rparr> \<and>
   count_events example_events = 3"
proof -
  let ?w = "example_builder \<lparr>Ref = ''acct/svc:abc123'', Frontend = []\<rparr> example_events
              (Some ''exit code 2'')"
  have h: "snd (build ?w ''tar'') =
     Some (Some \<lparr>Log = Some [''v: 1 load build definition'', ''s: 2 transferring 10'',
                              ''l: 3 step 1''],
                  ImageName = ''acct/svc:abc123'', Status = ''failure: exit code 2''\<rparr>,
           Some ''exit code 2'')"
    by (simp add: example_build_failed)
  have c: "count_events example_events = 3"
    by (simp add: count_events_def example_events_def)
  have r: "snd (buildHandler ?w ''tar'') =
     Some \<lparr>code = 500,
            written = Some \<lparr>Log = Some [''v: 1 load build definition'', ''s: 2 transferring 10'',
                                        ''l: 3 step 1''],
                             ImageName = ''acct/svc:abc123'',
                             Status = ''failure: exit code 2''\<rparr>\<rparr>"
    by (simp add: buildHandler_def example_build_failed)
  from buildHandler_failure_reply [OF h] show ?thesis
    by (simp only: r c simp_thms)
qed

text \<open>
  C2 as stated fails at a config with an empty target reference: the status of the
  answer is \<^verbatim>\<open>unexpected failure: no target reference to push\<close>, which does not start
  with \<^verbatim>\<open>failure:\<close>.
\<close>

theorem buildHandler_early_failure_status:
  "snd (buildHandler (example_builder \<lparr>Ref = [], Frontend = []\<rparr> example_events None) ''tar'') =
     Some \<lparr>code = 500,
            written = Some \<lparr>Log = None, ImageName = [],
                             Status = ''unexpected failure: no target reference to push''\<rparr>\<rparr> \<and>
   \<not> prefix ''failure: '' ''unexpected failure: no target reference to push''"
  by (simp add: buildHandler_def build_def example_builder_def Let_def)

text \<open>C9 at a config with an empty target reference.\<close>

theorem build_empty_reference_fails_before_solve_witness:
  "fst (build (example_builder \<lparr>Ref = [], Frontend = ''dockerfile''\<rparr> example_events None) ''tar'') =
     [MkTempDir, Untar ''/tmp/buildctx1'' False, ReadFile ''/tmp/buildctx1/config'',
      RemoveAll ''/tmp/buildctx1''] \<and>
   snd (build (example_builder \<lparr>Ref = [], Frontend = ''dockerfile''\<rparr> example_events None) ''tar'') =
     Some (None, Some ''no target reference to push'')"
  using build_empty_reference_fails_before_solve
    [where w = "example_builder \<lparr>Ref = [], Frontend = ''dockerfile''\<rparr> example_events None"
       and tmpdir = "''/tmp/buildctx1''" and dt = "''config''" and body = "''tar''"
       and cfg = "\<lparr>Ref = [], Frontend = ''dockerfile''\<rparr>"]
  by (simp add: example_builder_def)

section \<open>Properties of the Build Log under concurrent producers\<close>

lemma invariant_start: "invariant l0 (\<lparr>Line = l0, Sync = False\<rparr>, producers msgs)"
  by (induction msgs)
    (auto simp: invariant_def producers_def holds_def appended_def reads_current_def)

lemma no_holder: "length (filter holds ps) = 0 \<Longrightarrow> list_all (\<lambda>p. \<not> holds p) ps"
  by (induction ps) (auto split: if_splits)

lemma not_holds_reads_current: "list_all (\<lambda>p. \<not> holds p) ps \<Longrightarrow> list_all (reads_current b) ps"
  by (induction ps) (auto simp: holds_def reads_current_def split: pc.splits)

lemma reads_current_Sync [simp]: "reads_current (b\<lparr>Sync := x\<rparr>) = reads_current b"
  by (rule ext) (simp add: reads_current_def split: pc.splits)

lemma reads_current_simps [simp]:
  "reads_current b (AtLock, msg)" "reads_current b (AtRead, msg)"
  "reads_current b (AtUnlock, msg)" "reads_current b (Returned, msg)"
  "reads_current b (AtStore l, msg) \<longleftrightarrow> l = Line b"
  by (simp_all add: reads_current_def)

lemma invariant_step:
  assumes "invariant l0 c" and "step c c'"
  shows "invariant l0 c'"
  using assms(2)
proof cases
  case (1 b p b' p' ps qs)
  from assms(1) 1(1) have inv:
    "length (filter holds (ps @ p # qs)) = (if Sync b then 1 else 0)"
    "list_all (reads_current b) (ps @ p # qs)"
    "mset (Line b) = mset l0 + mset (map snd (filter appended (ps @ p # qs)))"
    by (simp_all add: invariant_def)
  from 1(3) show ?thesis
  proof cases
    case (lock msg)
    with inv show ?thesis unfolding 1(2) invariant_def
      by (auto simp: holds_def appended_def)
  next
    case (read msg)
    with inv show ?thesis unfolding 1(2) invariant_def
      by (auto simp: holds_def appended_def)
  next
    case (store l msg)
    with inv(1) have "length (filter holds ps) = 0" "length (filter holds qs) = 0"
      by (auto simp: holds_def split: if_splits)
    then have others: "list_all (reads_current b') ps" "list_all (reads_current b') qs"
      using no_holder not_holds_reads_current by blast+
    from store inv(2) have l: "l = Line b" by simp
    from store inv others l show ?thesis unfolding 1(2) invariant_def
      by (auto simp: holds_def appended_def)
  next
    case (unlock msg)
    with inv show ?thesis unfolding 1(2) invariant_def
      by (auto simp: holds_def appended_def split: if_splits)
  qed
qed

lemma step_messages: "step (b, ps) (b', ps') \<Longrightarrow> map snd ps' = map snd ps"
  by (auto elim!: step.cases producer_step.cases)

lemma execution_invariant:
  "execution c c' \<Longrightarrow> invariant l0 c \<Longrightarrow> invariant l0 c'"
  by (induction rule: execution.induct) (auto intro: invariant_step)

lemma execution_messages:
  "execution c c' \<Longrightarrow> map snd (snd c') = map snd (snd c)"
proof (induction rule: execution.induct)
  case (start c)
  show ?case by simp
next
  case (more c c' c'')
  then show ?case using step_messages [of "fst c'" "snd c'" "fst c''" "snd c''"] by simp
qed


lemma step_decreases: "step (b, ps) (b', ps') \<Longrightarrow> remaining ps' < remaining ps"
  by (auto simp: remaining_def elim!: step.cases producer_step.cases)

lemma all_returned_appended: "all_returned ps \<Longrightarrow> filter appended ps = ps"
  by (induction ps) (auto simp: all_returned_def appended_def)

lemma producers_messages: "map snd (producers msgs) = msgs"
  by (simp add: producers_def comp_def)

lemma not_all_returned:
  "\<not> all_returned ps \<Longrightarrow> \<exists>xs p ys. ps = xs @ p # ys \<and> fst p \<noteq> Returned"
proof -
  assume "\<not> all_returned ps"
  then obtain p where "p \<in> set ps" "fst p \<noteq> Returned"
    by (auto simp: all_returned_def list_all_iff)
  then show ?thesis using split_list [of p ps] by blast
qed

lemma holder_exists:
  "length (filter holds ps) = 1 \<Longrightarrow> \<exists>xs p ys. ps = xs @ p # ys \<and> holds p"
proof -
  assume "length (filter holds ps) = 1"
  then obtain p where "p \<in> set (filter holds ps)" by (cases "filter holds ps") auto
  then have "p \<in> set ps" "holds p" by auto
  then show ?thesis using split_list [of p ps] by blast
qed

lemma holder_steps: "holds p \<Longrightarrow> \<exists>b' p'. producer_step (b, p) (b', p')"
  by (cases p; cases "fst p") (auto simp: holds_def intro: producer_step.intros)

lemma progress:
  assumes inv: "invariant l0 (b, ps)" and "\<not> all_returned ps"
  shows "\<exists>c'. step (b, ps) c'"
proof (cases "Sync b")
  case True
  with inv have "length (filter holds ps) = 1" by (simp add: invariant_def)
  then obtain xs p ys where ps: "ps = xs @ p # ys" and "holds p" using holder_exists by blast
  then obtain b' p' where "producer_step (b, p) (b', p')" using holder_steps by blast
  then have "step (b, xs @ p # ys) (b', xs @ p' # ys)" by (rule step.intros)
  with ps show ?thesis by blast
next
  case False
  with inv have none: "list_all (\<lambda>p. \<not> holds p) ps"
    using no_holder by (simp add: invariant_def)
  from assms(2) obtain xs p ys where ps: "ps = xs @ p # ys" and p: "fst p \<noteq> Returned"
    using not_all_returned by blast
  from none ps have "\<not> holds p" by simp
  with p obtain msg where "p = (AtLock, msg)"
    by (cases p; cases "fst p") (auto simp: holds_def)
  with False have "producer_step (b, p) (b\<lparr>Sync := True\<rparr>, (AtRead, msg))"
    by (auto intro: producer_step.intros)
  then have "step (b, xs @ p # ys) (b\<lparr>Sync := True\<rparr>, xs @ (AtRead, msg) # ys)"
    by (rule step.intros)
  with ps show ?thesis by blast
qed

text \<open>
  C6. In every execution of K producers that each run \<^verbatim>\<open>Append\<close> once on an empty log,
  with their steps interleaved in any order: when all producers have returned, the log
  holds exactly their K lines, each once (as a multiset; the order is the order of the
  stores), and before that some producer can step, so the execution goes on. By
  \<open>step_decreases\<close> it cannot go on for ever.
\<close>

theorem concurrent_appends_all_kept:
  assumes "execution (\<lparr>Line = [], Sync = False\<rparr>, producers msgs) (b, ps)"
  shows "(all_returned ps \<longrightarrow> mset (Line b) = mset msgs \<and> length (Line b) = length msgs) \<and>
         (\<not> all_returned ps \<longrightarrow> (\<exists>c'. step (b, ps) c'))"
proof -
  have inv: "invariant [] (b, ps)"
    using execution_invariant [OF assms invariant_start] .
  have msgs: "map snd ps = msgs"
    using execution_messages [OF assms] by (simp add: producers_messages)
  have "mset (Line b) = mset (map snd (filter appended ps))"
    using inv by (simp add: invariant_def)
  then have "mset (Line b) = mset msgs" if "all_returned ps"
    using msgs all_returned_appended [OF that] by simp
  moreover have "length (Line b) = length msgs" if "all_returned ps"
    using calculation [OF that] by (metis size_mset)
  ultimately show ?thesis using progress [OF inv] by blast
qed

lemma step_at:
  "producer_step (b, p) (b', p') \<Longrightarrow> c = (b, ps @ p # qs) \<Longrightarrow> c' = (b', ps @ p' # qs) \<Longrightarrow>
     step c c'"
  by (auto intro: step.intros)

lemma lock_at: "\<not> Sync b \<Longrightarrow> b' = b\<lparr>Sync := True\<rparr> \<Longrightarrow>
    producer_step (b, (AtLock, msg)) (b', (AtRead, msg))"
  by (auto intro: producer_step.intros)

lemma read_at: "l = Line b \<Longrightarrow> producer_step (b, (AtRead, msg)) (b, (AtStore l, msg))"
  by (auto intro: producer_step.intros)

lemma store_at: "b' = b\<lparr>Line := l @ [msg]\<rparr> \<Longrightarrow>
    producer_step (b, (AtStore l, msg)) (b', (AtUnlock, msg))"
  by (auto intro: producer_step.intros)

lemma unlock_at: "b' = b\<lparr>Sync := False\<rparr> \<Longrightarrow>
    producer_step (b, (AtUnlock, msg)) (b', (Returned, msg))"
  by (auto intro: producer_step.intros)

lemma Append_alone:
  assumes "\<not> Sync b"
  shows "execution (b, [(AtLock, msg)]) (Append b msg, [(Returned, msg)])"
proof -
  let ?b1 = "b\<lparr>Sync := True\<rparr>"
  let ?b2 = "?b1\<lparr>Line := Line b @ [msg]\<rparr>"
  have s1: "step (b, [(AtLock, msg)]) (?b1, [(AtRead, msg)])"
    using assms by (intro step_at [where ps = "[]" and qs = "[]", OF lock_at]) simp_all
  have s2: "step (?b1, [(AtRead, msg)]) (?b1, [(AtStore (Line b), msg)])"
    by (intro step_at [where ps = "[]" and qs = "[]", OF read_at]) simp_all
  have s3: "step (?b1, [(AtStore (Line b), msg)]) (?b2, [(AtUnlock, msg)])"
    by (intro step_at [where ps = "[]" and qs = "[]", OF store_at]) simp_all
  have s4: "step (?b2, [(AtUnlock, msg)]) (?b2\<lparr>Sync := False\<rparr>, [(Returned, msg)])"
    by (intro step_at [where ps = "[]" and qs = "[]", OF unlock_at]) simp_all
  have "?b2\<lparr>Sync := False\<rparr> = Append b msg"
    using assms by (cases b) (simp add: Append_def)
  with execution.more [OF execution.more [OF execution.more [OF execution.more
        [OF execution.start s1] s2] s3] s4]
  show ?thesis by simp
qed

lemma example_execution:
  "execution (\<lparr>Line = [], Sync = False\<rparr>, producers [''a'', ''b''])
     (\<lparr>Line = [''b'', ''a''], Sync = False\<rparr>, [(Returned, ''a''), (Returned, ''b'')])"
proof -
  let ?c0 = "(\<lparr>Line = [], Sync = False\<rparr>, [(AtLock, ''a''), (AtLock, ''b'')])"
  let ?c1 = "(\<lparr>Line = [], Sync = True\<rparr>, [(AtLock, ''a''), (AtRead, ''b'')])"
  let ?c2 = "(\<lparr>Line = [], Sync = True\<rparr>, [(AtLock, ''a''), (AtStore [], ''b'')])"
  let ?c3 = "(\<lparr>Line = [''b''], Sync = True\<rparr>, [(AtLock, ''a''), (AtUnlock, ''b'')])"
  let ?c4 = "(\<lparr>Line = [''b''], Sync = False\<rparr>, [(AtLock, ''a''), (Returned, ''b'')])"
  let ?c5 = "(\<lparr>Line = [''b''], Sync = True\<rparr>, [(AtRead, ''a''), (Returned, ''b'')])"
  let ?c6 = "(\<lparr>Line = [''b''], Sync = True\<rparr>, [(AtStore [''b''], ''a''), (Returned, ''b'')])"
  let ?c7 = "(\<lparr>Line = [''b'', ''a''], Sync = True\<rparr>, [(AtUnlock, ''a''), (Returned, ''b'')])"
  let ?c8 = "(\<lparr>Line = [''b'', ''a''], Sync = False\<rparr>, [(Returned, ''a''), (Returned, ''b'')])"
  have s1: "step ?c0 ?c1"
    by (rule step_at [where ps = "[(AtLock, ''a'')]" and qs = "[]", OF lock_at]) simp_all
  have s2: "step ?c1 ?c2"
    by (rule step_at [where ps = "[(AtLock, ''a'')]" and qs = "[]", OF read_at]) simp_all
  have s3: "step ?c2 ?c3"
    by (rule step_at [where ps = "[(AtLock, ''a'')]" and qs = "[]", OF store_at]) simp_all
  have s4: "step ?c3 ?c4"
    by (rule step_at [where ps = "[(AtLock, ''a'')]" and qs = "[]", OF unlock_at]) simp_all
  have s5: "step ?c4 ?c5"
    by (rule step_at [where ps = "[]" and qs = "[(Returned, ''b'')]", OF lock_at]) simp_all
  have s6: "step ?c5 ?c6"
    by (rule step_at [where ps = "[]" and qs = "[(Returned, ''b'')]", OF read_at]) simp_all
  have s7: "step ?c6 ?c7"
    by (rule step_at [where ps = "[]" and qs = "[(Returned, ''b'')]", OF store_at]) simp_all
  have s8: "step ?c7 ?c8"
    by (rule step_at [where ps = "[]" and qs = "[(Returned, ''b'')]", OF unlock_at]) simp_all
  have "execution ?c0 ?c8"
    by (rule execution.more [OF execution.more [OF execution.more [OF execution.more
          [OF execution.more [OF execution.more [OF execution.more [OF execution.more
          [OF execution.start s1] s2] s3] s4] s5] s6] s7] s8])
  then show ?thesis by (simp add: producers_def)
qed

text \<open>C6 at two producers, the second of which takes the mutex first.\<close>

theorem concurrent_appends_all_kept_witness:
  "execution (\<lparr>Line = [], Sync = False\<rparr>, producers [''a'', ''b''])
     (\<lparr>Line = [''b'', ''a''], Sync = False\<rparr>, [(Returned, ''a''), (Returned, ''b'')]) \<and>
   all_returned [(Returned, ''a''), (Returned, ''b'')] \<and>
   length (Line \<lparr>Line = [''b'', ''a''], Sync = False\<rparr>) = length [''a'', ''b'']"
  using concurrent_appends_all_kept [OF example_execution] example_execution
  by (simp add: all_returned_def)

section \<open>Properties of the image-reference rewrite\<close>

lemma Index_prefix: "Index (p @ rest) p = Some 0"
proof (cases "p @ rest")
  case Nil
  then show ?thesis by simp
next
  case (Cons c cs)
  have "prefix p (p @ rest)" by simp
  with Cons show ?thesis by simp
qed

text \<open>
  C5. A reference that starts with the internal push-registry prefix is rewritten to the
  same reference with the public prefix in its place. Only that first occurrence is
  replaced: the rest of the reference is returned as it is, whatever it contains, also
  further occurrences of the internal prefix. (\<^verbatim>\<open>getImageName\<close> takes the public prefix
  first and the internal one second.)
\<close>

theorem getImageName_rewrites_prefix_once:
  "getImageName publicPrefix internalPrefix (internalPrefix @ rest) = publicPrefix @ rest"
  by (simp add: getImageName_def Replace1_def Index_prefix)

text \<open>C5 at a reference in which the internal prefix occurs twice.\<close>

theorem getImageName_rewrites_prefix_once_witness:
  "getImageName ''docker.io'' ''registry:5000'' ''registry:5000/registry:5000/figlet'' =
     ''docker.io/registry:5000/figlet''"
  using getImageName_rewrites_prefix_once
    [of "''docker.io''" "''registry:5000''" "''/registry:5000/figlet''"]
  by simp

end
